theory Spec2Isabelle
  imports Main "HOL-Library.AList"
begin

section \<open>Errors\<close>

text \<open>
  The Python exceptions that the embedded functions can raise. A function that can raise
  returns \<open>error + 'a\<close>, with \<open>Inl\<close> for the exception.
\<close>

datatype error = AttributeError | IndexError | TypeError | ValueError | UnboundLocalError

section \<open>Image utilities: \<open>utils/imageutils.py\<close>\<close>

subsection \<open>\<open>get_icon_for_file\<close>\<close>

text \<open>
  The function reads three things outside the repository: \<open>os.path.isdir\<close>,
  \<open>mimetypes.guess_type(filename)[0]\<close> and the default icon theme's
  \<open>choose_icon(icon_list, size, NO_SVG)\<close>. They are the fields of \<open>icon_env\<close>.
  \<open>choose_icon\<close> gives \<open>None\<close> when the theme finds no icon (the toolkit returns no
  icon info), and otherwise the result of \<open>get_filename()\<close> of the icon info it found.
\<close>

record icon_env =
  isdir :: "string \<Rightarrow> bool"
  guess_type :: "string \<Rightarrow> string option"
  choose_icon :: "string list \<Rightarrow> int \<Rightarrow> string option option"

text \<open>Python's \<open>s.split(sep)\<close> for a one-character separator.\<close>

fun split_on :: "char \<Rightarrow> string \<Rightarrow> string list" where
  "split_on c [] = [[]]"
| "split_on c (x # xs) =
     (if x = c then [] # split_on c xs
      else (case split_on c xs of [] \<Rightarrow> [[x]] | p # ps \<Rightarrow> (x # p) # ps))"

text \<open>\<open>mimetypes.guess_type(filename)[0] or 'unknown/unknown'\<close>\<close>

definition guessed_mime :: "icon_env \<Rightarrow> string \<Rightarrow> string" where
  "guessed_mime env filename =
     (case guess_type env filename of
        None \<Rightarrow> ''unknown/unknown''
      | Some s \<Rightarrow> if s = [] then ''unknown/unknown'' else s)"

text \<open>
  Lines 34 to 42: the pair \<open>(mimetype, details)\<close>. The tuple assignment
  \<open>mimetype, details = guessed_mime.split('/')\<close> raises \<open>ValueError\<close> unless the split
  has exactly two parts.
\<close>

definition mimetype_details :: "icon_env \<Rightarrow> string \<Rightarrow> error + (string \<times> string)" where
  "mimetype_details env filename =
     (if isdir env filename then Inr (''folder'', ''folder'')
      else (case split_on (CHR ''/'') (guessed_mime env filename) of
              [mimetype, details] \<Rightarrow> Inr (mimetype, details)
            | _ \<Rightarrow> Inl ValueError))"

text \<open>Lines 47 to 51: the candidate list.\<close>

definition icon_list :: "string \<Rightarrow> string \<Rightarrow> string list" where
  "icon_list mimetype details =
     [mimetype @ ''-'' @ details, details, mimetype]
     @ (if mimetype = ''application'' then [''application-x-'' @ details] else [])
     @ [mimetype @ ''-x-generic'']
     @ [''unknown'']"

text \<open>The list handed to the icon theme for a file name.\<close>

definition icon_candidates :: "icon_env \<Rightarrow> string \<Rightarrow> error + string list" where
  "icon_candidates env filename =
     (case mimetype_details env filename of
        Inl e \<Rightarrow> Inl e
      | Inr (mimetype, details) \<Rightarrow> Inr (icon_list mimetype details))"

text \<open>
  Lines 53 to 56. \<open>icon.get_filename()\<close> on the \<open>None\<close> that the theme returns when no
  candidate resolves raises \<open>AttributeError\<close>.
\<close>

definition get_icon_for_file :: "icon_env \<Rightarrow> string \<Rightarrow> int \<Rightarrow> error + string option" where
  "get_icon_for_file env filename sz =
     (case icon_candidates env filename of
        Inl e \<Rightarrow> Inl e
      | Inr candidates \<Rightarrow>
          (case choose_icon env candidates sz of
             None \<Rightarrow> Inl AttributeError
           | Some icon_filename \<Rightarrow> Inr icon_filename))"

text \<open>Two environments used as concrete inputs.\<close>

definition png_env :: icon_env where
  "png_env = \<lparr> isdir = (\<lambda>_. False), guess_type = (\<lambda>_. Some ''image/png''),
               choose_icon = (\<lambda>cands _. if ''image'' \<in> set cands
                                then Some (Some ''/usr/share/icons/image.png'') else None) \<rparr>"

definition bare_theme_env :: icon_env where
  "bare_theme_env = \<lparr> isdir = (\<lambda>_. False), guess_type = (\<lambda>_. None),
                      choose_icon = (\<lambda>_ _. None) \<rparr>"

text \<open>A guess without a slash, and a directory.\<close>

definition type_only_env :: icon_env where
  "type_only_env = \<lparr> isdir = (\<lambda>_. False), guess_type = (\<lambda>_. Some ''text''),
                     choose_icon = (\<lambda>_ _. Some (Some ''/usr/share/icons/text.png'')) \<rparr>"

definition dir_env :: icon_env where
  "dir_env = \<lparr> isdir = (\<lambda>_. True), guess_type = (\<lambda>_. None),
               choose_icon = (\<lambda>cands _. if ''folder'' \<in> set cands
                                then Some (Some ''/usr/share/icons/folder.png'') else None) \<rparr>"

subsection \<open>\<open>add_drop_shadow\<close>\<close>

text \<open>
  The imaging library is outside the repository: an image is a value of a type \<open>'img\<close>
  and the library calls the function makes are the fields of \<open>pil\<close>
  (\<open>image.size\<close>, \<open>Image.new('RGBA', size, color)\<close>, \<open>shadow.paste(color, box)\<close>,
  \<open>shadow.filter(ImageFilter.BLUR)\<close>, \<open>shadow.paste(image, position)\<close>). The library
  works on fresh copies, so \<open>copy()\<close> is the identity on values. An image object is
  truthy, so \<open>if existing_shadow\<close> asks whether the key is in the cache.
\<close>

type_synonym color = "int \<times> int \<times> int \<times> int"

type_synonym shadow_key = "int \<times> int \<times> int \<times> int \<times> (int \<times> int) \<times> color"

record 'img pil =
  img_size :: "'img \<Rightarrow> int \<times> int"
  img_new :: "int \<times> int \<Rightarrow> color \<Rightarrow> 'img"
  paste_color :: "'img \<Rightarrow> color \<Rightarrow> int \<times> int \<times> int \<times> int \<Rightarrow> 'img"
  blur :: "'img \<Rightarrow> 'img"
  paste_image :: "'img \<Rightarrow> 'img \<Rightarrow> int \<times> int \<Rightarrow> 'img"

text \<open>
  The module-level \<open>_drop_shadows_cache\<close>, and a count of the calls of the blur filter
  (the instrumentation that makes a recomputation observable).
\<close>

record 'img shadow_state =
  drop_shadows_cache :: "shadow_key \<rightharpoonup> 'img"
  blur_calls :: nat

record 'img shadow_args =
  image :: 'img
  iterations :: int
  border_size :: int
  offset :: "int \<times> int"
  shadow_color :: color

text \<open>Lines 124 to 127.\<close>

definition shadow_key :: "'img pil \<Rightarrow> 'img shadow_args \<Rightarrow> shadow_key" where
  "shadow_key P a =
     (let width = fst (img_size P (image a)) + \<bar>fst (offset a)\<bar> + 2 * border_size a;
          height = snd (img_size P (image a)) + \<bar>snd (offset a)\<bar> + 2 * border_size a
      in (width, height, iterations a, border_size a, offset a, shadow_color a))"

text \<open>Lines 132 to 148: the canvas computed on a cache miss, before the image is pasted.\<close>

definition blurred_shadow :: "'img pil \<Rightarrow> 'img shadow_args \<Rightarrow> 'img" where
  "blurred_shadow P a =
     (let width = fst (img_size P (image a)) + \<bar>fst (offset a)\<bar> + 2 * border_size a;
          height = snd (img_size P (image a)) + \<bar>snd (offset a)\<bar> + 2 * border_size a;
          shadow = img_new P (width, height) (255, 255, 255, 0);
          shadow_lft = border_size a + max (fst (offset a)) 0;
          shadow_top = border_size a + max (snd (offset a)) 0;
          shadow = paste_color P shadow (shadow_color a)
                     (shadow_lft, shadow_top,
                      shadow_lft + fst (img_size P (image a)),
                      shadow_top + snd (img_size P (image a)))
      in ((blur P) ^^ nat (iterations a)) shadow)"

text \<open>Lines 152 to 158: where the original image is pasted.\<close>

definition image_position :: "'img shadow_args \<Rightarrow> int \<times> int" where
  "image_position a =
     (border_size a - min (fst (offset a)) 0, border_size a - min (snd (offset a)) 0)"

definition add_drop_shadow ::
  "'img pil \<Rightarrow> 'img shadow_state \<Rightarrow> 'img shadow_args \<Rightarrow> 'img \<times> 'img shadow_state" where
  "add_drop_shadow P st a =
     (let key = shadow_key P a in
      case drop_shadows_cache st key of
        Some existing_shadow \<Rightarrow>
          (paste_image P existing_shadow (image a) (image_position a), st)
      | None \<Rightarrow>
          (let shadow = blurred_shadow P a in
           (paste_image P shadow (image a) (image_position a),
            st\<lparr> drop_shadows_cache := (drop_shadows_cache st)(key \<mapsto> shadow),
                blur_calls := blur_calls st + nat (iterations a) \<rparr>)))"

text \<open>A sequence of calls, each on the cache the previous one left.\<close>

fun add_drop_shadows ::
  "'img pil \<Rightarrow> 'img shadow_state \<Rightarrow> 'img shadow_args list \<Rightarrow> 'img shadow_state" where
  "add_drop_shadows P st [] = st"
| "add_drop_shadows P st (a # as) = add_drop_shadows P (snd (add_drop_shadow P st a)) as"

text \<open>A concrete imaging library: images as the terms that build them.\<close>

datatype canvas =
  Source int int
| Blank "int \<times> int" color
| Painted canvas color "int \<times> int \<times> int \<times> int"
| Blurred canvas
| Composite canvas canvas "int \<times> int"

fun canvas_size :: "canvas \<Rightarrow> int \<times> int" where
  "canvas_size (Source w h) = (w, h)"
| "canvas_size (Blank s c) = s"
| "canvas_size (Painted b c r) = canvas_size b"
| "canvas_size (Blurred b) = canvas_size b"
| "canvas_size (Composite b i p) = canvas_size b"

definition term_pil :: "canvas pil" where
  "term_pil = \<lparr> img_size = canvas_size, img_new = Blank, paste_color = Painted,
                blur = Blurred, paste_image = Composite \<rparr>"

definition empty_shadows :: "canvas shadow_state" where
  "empty_shadows = \<lparr> drop_shadows_cache = Map.empty, blur_calls = 0 \<rparr>"

definition thumb_args :: "int \<times> int \<Rightarrow> canvas shadow_args" where
  "thumb_args off = \<lparr> image = Source 100 50, iterations = 3, border_size = 2,
                       offset = off, shadow_color = (0, 0, 0, 255) \<rparr>"

text \<open>The canvas of the shadow of that image with the offset \<open>(2, 2)\<close>.\<close>

definition thumb_canvas :: canvas where
  "thumb_canvas =
     Blurred (Blurred (Blurred
       (Painted (Blank (106, 56) (255, 255, 255, 0)) (0, 0, 0, 255) (4, 4, 104, 54))))"

section \<open>Tree view: \<open>DataGridView._get_best_column_width\<close>\<close>

definition MIN_WIDTH :: int where
  "MIN_WIDTH = 40"

definition MAX_WIDTH :: int where
  "MAX_WIDTH = 400"

text \<open>
  Lines 1268 to 1285. The loop over the samples measures, with the toolkit's text layout,
  the first line of each formatted value that is a string, and skips the other values.
  The toolkit's measurement is the parameter \<open>measure_px\<close>: \<open>None\<close> for a value that is
  skipped, the measured pixel width otherwise.
\<close>

definition sample_lengths :: "('v \<Rightarrow> int option) \<Rightarrow> 'v list \<Rightarrow> int list" where
  "sample_lengths measure_px samples = List.map_filter measure_px samples"

text \<open>Lines 1286 to 1297, on the label's pixel width and the measured widths.\<close>

definition get_best_column_width :: "int \<Rightarrow> int list \<Rightarrow> int" where
  "get_best_column_width label_width lengths =
     (let max_length = (if lengths \<noteq> [] then Max (set lengths) else 1);
          width = max_length
      in if width < MIN_WIDTH then
           (let width = MIN_WIDTH in
            if width < label_width then label_width + 20 else width)
         else if width > MAX_WIDTH then MAX_WIDTH
         else width)"

section \<open>The tree model: \<open>DataGridModel\<close> in \<open>ui/grid.py\<close>\<close>

subsection \<open>Values, rows and query parameters\<close>

text \<open>The values a data source puts into a row: \<open>None\<close>, booleans, integers, strings.\<close>

datatype val = VNone | VBool bool | VInt int | VStr string

text \<open>
  A \<open>Node\<close>, the row class of the data source package: a list of child nodes that also
  carries the row's \<open>data\<close> and its \<open>path\<close>. The path is \<open>None\<close> until one is assigned.
  The class itself is not among this repository's sources here; its method
  \<open>is_children_loaded\<close> is a field of \<open>data_source\<close> below.
\<close>

datatype node = Node (data: "val list") (path: "nat list option") (children: "node list")

definition set_path :: "nat list option \<Rightarrow> node \<Rightarrow> node" where
  "set_path p n = Node (data n) p (children n)"

definition set_data :: "val list \<Rightarrow> node \<Rightarrow> node" where
  "set_data d n = Node d (path n) (children n)"

definition append_child :: "node \<Rightarrow> node \<Rightarrow> node" where
  "append_child c n = Node (data n) (path n) (children n @ [c])"

text \<open>
  A node object sits at one place of the hierarchy from the moment it is appended, and
  nodes are only ever appended: the place (the list of child indices from the root
  container) stands for the object. \<open>get_node\<close> reads the node at a place,
  \<open>update_node\<close> changes it there.
\<close>

fun get_node :: "node \<Rightarrow> nat list \<Rightarrow> node option" where
  "get_node n [] = Some n"
| "get_node n (i # is) =
     (if i < length (children n) then get_node (children n ! i) is else None)"

fun update_node :: "(node \<Rightarrow> node) \<Rightarrow> nat list \<Rightarrow> node \<Rightarrow> node" where
  "update_node f [] n = f n"
| "update_node f (i # is) n =
     (if i < length (children n)
      then Node (data n) (path n) ((children n)[i := update_node f is (children n ! i)])
      else n)"

text \<open>
  Keys of a Python dictionary or set: \<open>True\<close> and \<open>1\<close>, \<open>False\<close> and \<open>0\<close> are
  the same key.
\<close>

definition dict_key :: "val \<Rightarrow> val" where
  "dict_key v = (case v of VBool b \<Rightarrow> VInt (if b then 1 else 0) | _ \<Rightarrow> v)"

text \<open>A filter clause \<open>{'operator': ..., 'param': ...}\<close>; the parameter of a range is a pair.\<close>

datatype param = Single val | Range int int

record clause =
  operator :: string
  clause_param :: param

text \<open>
  A key of the \<open>where\<close> dictionary: a column name, or an object that is a key by its
  identity. \<open>on_date_change\<close> can use a row object of the date column chooser as a key
  (see there); the number is the identity of the object.
\<close>

datatype where_key = ColumnName string | RowObject nat

text \<open>
  \<open>active_params\<close>. The keys are fixed strings, so the dictionary is a record; a key
  that may be absent is an option (\<open>parent_id = Some VNone\<close> is the key present with the
  value \<open>None\<close>). \<open>flat\<close> is present from the constructor on. The \<open>where\<close> dictionary is
  a list of pairs that is read with \<open>map_of\<close> and changed with \<open>AList.update\<close> and
  \<open>AList.delete\<close>.
\<close>

record params =
  flat :: bool
  where_clauses :: "(where_key \<times> clause) list option"
  order_by :: "string option"
  desc :: "bool option"
  page :: "int option"
  parent_id :: "val option"

record column =
  name :: string
  display :: string
  transform :: "string option"

subsection \<open>The data source\<close>

text \<open>
  The data source is outside these sources. Its answers may depend on everything it was
  asked before, so they are functions of the list of calls made so far, the newest last:
  \<open>ds_load\<close> is the node that the last call, a \<open>load\<close>, returns (its children are the
  loaded rows), and the other fields are the attributes read after that call.
\<close>

datatype ds_call = Load params | Update string val "int list"

record data_source =
  ds_load :: "ds_call list \<Rightarrow> node"
  ds_id_column_idx :: "ds_call list \<Rightarrow> nat option"
  ds_parent_column_idx :: "ds_call list \<Rightarrow> nat option"
  ds_flat_column_idx :: "ds_call list \<Rightarrow> nat option"
  ds_total_recs :: "ds_call list \<Rightarrow> int"
  is_children_loaded :: "bool \<Rightarrow> node \<Rightarrow> bool"

subsection \<open>The model's state\<close>

text \<open>Signals and toolkit notifications, in the order they are emitted.\<close>

datatype signal = DataLoaded int | RowInserted "nat list" | RowChanged "nat list"

record model =
  active_params :: params
  rows :: "node option"
  row_id_mapper :: "val \<rightharpoonup> nat list"
  id_column_idx :: "nat option"
  parent_column_idx :: "nat option"
  flat_column_idx :: "nat option"
  total_recs :: "int option"
  columns :: "column list"
  ds_calls :: "ds_call list"
  signals :: "signal list"

text \<open>
  An operation that can raise returns the exception or its value together with the state
  it leaves: a Python exception does not undo the assignments made before it. An operation
  that may not return (the nested loading below) wraps this in an option, \<open>None\<close> for
  not returning.
\<close>

type_synonym 'a outcome = "((error + 'a) \<times> model) option"

definition bind_outcome :: "'a outcome \<Rightarrow> ('a \<Rightarrow> model \<Rightarrow> 'b outcome) \<Rightarrow> 'b outcome" where
  "bind_outcome r f =
     (case r of
        None \<Rightarrow> None
      | Some (Inl e, m) \<Rightarrow> Some (Inl e, m)
      | Some (Inr x, m) \<Rightarrow> f x m)"

subsection \<open>\<open>refresh\<close>\<close>

text \<open>
  Lines 1629 to 1631, the loop over the new root rows: row \<open>i\<close> gets the path \<open>(i,)\<close> and
  is registered under the value at the id column. \<open>row.data[idx]\<close> raises \<open>IndexError\<close>
  when the row is too short; the rows before it keep what the loop did.
\<close>

fun assign_roots ::
  "nat \<Rightarrow> nat \<Rightarrow> node list \<Rightarrow> (val \<rightharpoonup> nat list)
   \<Rightarrow> (error + unit) \<times> node list \<times> (val \<rightharpoonup> nat list)" where
  "assign_roots idx i [] mapper = (Inr (), [], mapper)"
| "assign_roots idx i (row # rest) mapper =
     (let row' = set_path (Some [i]) row in
      if idx < length (data row) then
        (case assign_roots idx (Suc i) rest (mapper(dict_key (data row ! idx) \<mapsto> [i])) of
           (r, rest', mapper') \<Rightarrow> (r, row' # rest', mapper'))
      else (Inl IndexError, row' # rest, mapper))"

definition refresh :: "data_source \<Rightarrow> model \<Rightarrow> (error + unit) \<times> model" where
  "refresh ds m =
     (let ps = (active_params m)\<lparr> page := None, parent_id := None \<rparr>;
          calls = ds_calls m @ [Load ps];
          loaded = set_path (Some []) (ds_load ds calls);
          m1 = m\<lparr> active_params := ps,
                  row_id_mapper := Map.empty,
                  rows := Some loaded,
                  id_column_idx := ds_id_column_idx ds calls,
                  parent_column_idx := ds_parent_column_idx ds calls,
                  flat_column_idx := ds_flat_column_idx ds calls,
                  total_recs := Some (ds_total_recs ds calls),
                  ds_calls := calls \<rparr>;
          emit = (\<lambda>m. m\<lparr> signals := signals m @ [DataLoaded (ds_total_recs ds calls)] \<rparr>)
      in case ds_id_column_idx ds calls of
           None \<Rightarrow> (Inr (), emit m1)
         | Some idx \<Rightarrow>
             (case assign_roots idx 0 (children loaded) Map.empty of
                (r, roots, mapper) \<Rightarrow>
                  (let m2 = m1\<lparr> rows := Some (Node (data loaded) (path loaded) roots),
                                  row_id_mapper := mapper \<rparr>
                   in case r of Inl e \<Rightarrow> (Inl e, m2) | Inr _ \<Rightarrow> (Inr (), emit m2))))"

subsection \<open>\<open>add_rows\<close> and the lazy loading of children\<close>

text \<open>
  \<open>add_rows\<close> notifies the toolkit of a new row with \<open>self.get_iter(path)\<close>, which comes
  back into the model through \<open>on_get_iter\<close> and \<open>_get_row_by_path\<close>, and that loads the
  children of the row it reaches with \<open>add_rows\<close> again. The functions below therefore
  take the nested \<open>add_rows\<close> as the argument \<open>nested\<close>; \<open>add_rows\<close> ties the knot with
  a bound on the nesting depth, and returns \<open>None\<close> when the bound is exceeded (a data
  source may describe a hierarchy without end). The parent node of a call is given by
  its place in the hierarchy.
\<close>

text \<open>Lines 1864 to 1866.\<close>

definition ensure_children_is_loaded ::
  "(nat list option \<Rightarrow> model \<Rightarrow> bool outcome) \<Rightarrow> data_source \<Rightarrow> nat list \<Rightarrow> model
   \<Rightarrow> unit outcome" where
  "ensure_children_is_loaded nested ds pos m =
     (case rows m of
        None \<Rightarrow> Some (Inl TypeError, m)
      | Some root \<Rightarrow>
          (case get_node root pos of
             None \<Rightarrow> Some (Inl IndexError, m)
           | Some row \<Rightarrow>
               if is_children_loaded ds False row then Some (Inr (), m)
               else bind_outcome (nested (Some pos) m) (\<lambda>_ m'. Some (Inr (), m'))))"

text \<open>
  Lines 1868 to 1876. The indices of the path are followed from the root container; an
  empty path and an index that is out of range raise \<open>IndexError\<close>, indexing the \<open>None\<close>
  that \<open>self.rows\<close> is before the first refresh raises \<open>TypeError\<close>. The row returned is the
  one at the place \<open>path\<close> of the state returned.
\<close>

definition get_row_by_path ::
  "(nat list option \<Rightarrow> model \<Rightarrow> bool outcome) \<Rightarrow> data_source \<Rightarrow> nat list \<Rightarrow> model
   \<Rightarrow> unit outcome" where
  "get_row_by_path nested ds p m =
     (if p = [] then Some (Inl IndexError, m)
      else case rows m of
             None \<Rightarrow> Some (Inl TypeError, m)
           | Some root \<Rightarrow>
               (case get_node root p of
                  None \<Rightarrow> Some (Inl IndexError, m)
                | Some row \<Rightarrow> ensure_children_is_loaded nested ds p m))"

text \<open>Lines 1907 to 1916: an \<open>IndexError\<close> of the lookup makes the result \<open>None\<close>.\<close>

definition on_get_iter ::
  "(nat list option \<Rightarrow> model \<Rightarrow> bool outcome) \<Rightarrow> data_source \<Rightarrow> nat list \<Rightarrow> model
   \<Rightarrow> nat list option outcome" where
  "on_get_iter nested ds p m =
     (case get_row_by_path nested ds p m of
        None \<Rightarrow> None
      | Some (Inl e, m') \<Rightarrow> if e = IndexError then Some (Inr None, m') else Some (Inl e, m')
      | Some (Inr _, m') \<Rightarrow> Some (Inr (Some p), m'))"

text \<open>
  The toolkit's \<open>get_iter\<close>: it asks \<open>on_get_iter\<close> and raises \<open>ValueError\<close> for a path
  that \<open>on_get_iter\<close> does not accept.
\<close>

definition get_iter ::
  "(nat list option \<Rightarrow> model \<Rightarrow> bool outcome) \<Rightarrow> data_source \<Rightarrow> nat list \<Rightarrow> model
   \<Rightarrow> nat list outcome" where
  "get_iter nested ds p m =
     bind_outcome (on_get_iter nested ds p m)
       (\<lambda>r m'. case r of None \<Rightarrow> Some (Inl ValueError, m') | Some it \<Rightarrow> Some (Inr it, m'))"

text \<open>
  Lines 1664 to 1674, the loop over the loaded rows. \<open>pos\<close> is the place of
  \<open>parent_row\<close> (\<open>[]\<close> for the root container), \<open>i\<close> the index of the row in the loaded
  list. The new row is appended at the end of the parent's children, whatever its path
  says.
\<close>

fun add_rows_loop ::
  "(nat list option \<Rightarrow> model \<Rightarrow> bool outcome) \<Rightarrow> data_source \<Rightarrow> bool \<Rightarrow> nat list \<Rightarrow> nat
   \<Rightarrow> nat \<Rightarrow> node list \<Rightarrow> model \<Rightarrow> unit outcome" where
  "add_rows_loop nested ds is_tree pos path_offset i [] m = Some (Inr (), m)"
| "add_rows_loop nested ds is_tree pos path_offset i (row # rest) m =
     (case rows m of
        None \<Rightarrow> Some (Inl TypeError, m)
      | Some root \<Rightarrow>
          (case get_node root pos of
             None \<Rightarrow> Some (Inl IndexError, m)
           | Some parent_row \<Rightarrow>
               (case path parent_row of
                  None \<Rightarrow> Some (Inl TypeError, m)
                | Some parent_path \<Rightarrow>
                    (let row_path = parent_path @ [path_offset + i];
                         row' = set_path (Some row_path) row
                     in case id_column_idx m of
                          None \<Rightarrow> Some (Inl TypeError, m)
                        | Some idx \<Rightarrow>
                            if idx < length (data row) then
                              (let m1 = m\<lparr> row_id_mapper :=
                                            (row_id_mapper m)(dict_key (data row ! idx)
                                               \<mapsto> pos @ [length (children parent_row)]),
                                          rows := Some (update_node (append_child row') pos root) \<rparr>
                               in if is_tree
                                  then add_rows_loop nested ds is_tree pos path_offset (Suc i) rest m1
                                  else bind_outcome (get_iter nested ds row_path m1)
                                         (\<lambda>_ m2. add_rows_loop nested ds is_tree pos path_offset (Suc i) rest
                                                    (m2\<lparr> signals := signals m2 @ [RowInserted row_path] \<rparr>)))
                            else Some (Inl IndexError, m)))))"

text \<open>Line 1641.\<close>

definition is_tree :: "model \<Rightarrow> bool" where
  "is_tree m \<longleftrightarrow> parent_column_idx m \<noteq> None \<and> \<not> flat (active_params m)"

text \<open>
  Lines 1648 to 1657: the parent's id, the parent's place, the path offset and the
  parameters after the page was advanced. \<open>self.rows[-1].path[-1]\<close> raises when there is
  no root row or the last root row has no path or an empty one.
\<close>

definition add_rows_target ::
  "nat list option \<Rightarrow> model \<Rightarrow> error + (val \<times> nat list \<times> nat \<times> params)" where
  "add_rows_target parent_node m =
     (case parent_node of
        None \<Rightarrow>
          (case rows m of
             None \<Rightarrow> Inl TypeError
           | Some root \<Rightarrow>
               if children root = [] then Inl IndexError
               else (case path (last (children root)) of
                       None \<Rightarrow> Inl TypeError
                     | Some last_path \<Rightarrow>
                         if last_path = [] then Inl IndexError
                         else Inr (VNone, [], last last_path + 1,
                                   (active_params m)\<lparr> page :=
                                      Some ((case page (active_params m) of None \<Rightarrow> 0 | Some p \<Rightarrow> p) + 1) \<rparr>)))
      | Some pos \<Rightarrow>
          (case rows m of
             None \<Rightarrow> Inl TypeError
           | Some root \<Rightarrow>
               (case get_node root pos of
                  None \<Rightarrow> Inl IndexError
                | Some parent_row \<Rightarrow>
                    (case id_column_idx m of
                       None \<Rightarrow> Inl TypeError
                     | Some idx \<Rightarrow>
                         if idx < length (data parent_row)
                         then Inr (data parent_row ! idx, pos, 0, active_params m)
                         else Inl IndexError))))"

text \<open>Lines 1635 to 1676, with the nested call as an argument.\<close>

definition add_rows_body ::
  "(nat list option \<Rightarrow> model \<Rightarrow> bool outcome) \<Rightarrow> data_source \<Rightarrow> nat list option \<Rightarrow> model
   \<Rightarrow> bool outcome" where
  "add_rows_body nested ds parent_node m =
     (if is_tree m \<and> parent_node = None then Some (Inr False, m)
      else case add_rows_target parent_node m of
             Inl e \<Rightarrow> Some (Inl e, m)
           | Inr (parent_id_value, pos, path_offset, ps) \<Rightarrow>
               (let ps' = ps\<lparr> parent_id := Some parent_id_value \<rparr>;
                    calls = ds_calls m @ [Load ps'];
                    m1 = m\<lparr> active_params := ps', ds_calls := calls \<rparr>;
                    loaded = children (ds_load ds calls)
                in if length loaded = 0 then Some (Inr False, m1)
                   else bind_outcome
                          (add_rows_loop nested ds (is_tree m) pos path_offset 0 loaded m1)
                          (\<lambda>_ m2. Some (Inr True, m2))))"

primrec add_rows :: "nat \<Rightarrow> data_source \<Rightarrow> nat list option \<Rightarrow> model \<Rightarrow> bool outcome" where
  "add_rows 0 ds = add_rows_body (\<lambda>_ _. None) ds"
| "add_rows (Suc depth) ds = add_rows_body (add_rows depth ds) ds"

subsection \<open>Concrete inputs for the model\<close>

text \<open>The state that the constructor leaves (lines 1575 to 1610).\<close>

definition init_params :: params where
  "init_params = \<lparr> flat = False, where_clauses = None, order_by = None, desc = None,
                   page = None, parent_id = None \<rparr>"

definition init_model :: "column list \<Rightarrow> model" where
  "init_model cols =
     \<lparr> active_params = init_params, rows = None, row_id_mapper = Map.empty,
       id_column_idx = None, parent_column_idx = None, flat_column_idx = None,
       total_recs = None, columns = cols, ds_calls = [], signals = [] \<rparr>"

text \<open>
  A data source that answers a \<open>load\<close> by a function of the parameters of the call, with
  fixed column indices; it reports the number of rows it returns as the total.
\<close>

definition source_of ::
  "(params \<Rightarrow> node) \<Rightarrow> nat option \<Rightarrow> nat option \<Rightarrow> (bool \<Rightarrow> node \<Rightarrow> bool) \<Rightarrow> data_source" where
  "source_of answer id_idx parent_idx loaded =
     \<lparr> ds_load = (\<lambda>calls. case last calls of Load ps \<Rightarrow> answer ps | _ \<Rightarrow> Node [] None []),
       ds_id_column_idx = (\<lambda>_. id_idx),
       ds_parent_column_idx = (\<lambda>_. parent_idx),
       ds_flat_column_idx = (\<lambda>_. None),
       ds_total_recs = (\<lambda>calls. case last calls of
                                   Load ps \<Rightarrow> int (length (children (answer ps)))
                                 | _ \<Rightarrow> 0),
       is_children_loaded = loaded \<rparr>"

definition selected_columns :: "column list" where
  "selected_columns =
     [\<lparr> name = ''__selected'', display = ''__selected'', transform = Some ''boolean'' \<rparr>,
      \<lparr> name = ''id'', display = ''Id'', transform = None \<rparr>,
      \<lparr> name = ''title'', display = ''Title'', transform = Some ''string'' \<rparr>]"

text \<open>The keys under which a list of rows is registered.\<close>

definition row_keys :: "nat \<Rightarrow> node list \<Rightarrow> val list" where
  "row_keys idx rs = map (\<lambda>r. dict_key (data r ! idx)) rs"

text \<open>Two root rows with the ids 7 and 9 at column 1, as a data source delivers them.\<close>

definition two_roots :: node where
  "two_roots = Node [] None [Node [VBool False, VInt 7] None [], Node [VBool False, VInt 9] None []]"

definition id_source :: data_source where
  "id_source = source_of (\<lambda>_. two_roots) (Some 1) None (\<lambda>_ _. True)"

definition no_id_source :: data_source where
  "no_id_source = source_of (\<lambda>_. two_roots) None None (\<lambda>_ _. True)"

text \<open>
  One hierarchy extends another when every node of the first is still at its place in the
  second, with the same data and path and at least as many children.
\<close>

definition tree_ext :: "node \<Rightarrow> node \<Rightarrow> bool" where
  "tree_ext root root' \<longleftrightarrow>
     (\<forall>q n. get_node root q = Some n \<longrightarrow>
        (\<exists>n'. get_node root' q = Some n' \<and> data n' = data n \<and> path n' = path n
              \<and> length (children n) \<le> length (children n')))"

text \<open>The same for the states of the model, and for a nested call that only extends.\<close>

definition extends :: "model \<Rightarrow> model \<Rightarrow> bool" where
  "extends m m' \<longleftrightarrow>
     (\<forall>root. rows m = Some root \<longrightarrow> (\<exists>root'. rows m' = Some root' \<and> tree_ext root root'))
     \<and> id_column_idx m' = id_column_idx m"

definition growing :: "(nat list option \<Rightarrow> model \<Rightarrow> bool outcome) \<Rightarrow> bool" where
  "growing nested \<longleftrightarrow> (\<forall>p m r m'. nested p m = Some (r, m') \<longrightarrow> extends m m')"

text \<open>What an iteration of the loop of \<open>add_rows\<close> needs in order not to raise.\<close>

definition loop_ready :: "nat \<Rightarrow> nat list \<Rightarrow> node \<Rightarrow> model \<Rightarrow> bool" where
  "loop_ready idx pos row m \<longleftrightarrow>
     (\<exists>root parent_row parent_path.
        rows m = Some root \<and> get_node root pos = Some parent_row
        \<and> path parent_row = Some parent_path)
     \<and> id_column_idx m = Some idx \<and> idx < length (data row)"

text \<open>The number of children of the node at a place, when there is one.\<close>

definition child_count :: "model \<Rightarrow> nat list \<Rightarrow> nat option" where
  "child_count m pos =
     (case rows m of None \<Rightarrow> None
      | Some root \<Rightarrow> map_option (\<lambda>n. length (children n)) (get_node root pos))"

text \<open>
  A data source with two root rows on the first page, one more row on page 1 and nothing
  after it, and no children under any row.
\<close>

definition paged_answer :: "params \<Rightarrow> node" where
  "paged_answer ps =
     (if parent_id ps \<noteq> None \<and> parent_id ps \<noteq> Some VNone then Node [] None []
      else case page ps of
             None \<Rightarrow> two_roots
           | Some p \<Rightarrow> if p = 1 then Node [] None [Node [VBool False, VInt 11] None []]
                       else Node [] None [])"

definition paged_source :: data_source where
  "paged_source = source_of paged_answer (Some 1) None (\<lambda>_ _. True)"

definition tree_source :: data_source where
  "tree_source = source_of paged_answer (Some 1) (Some 2) (\<lambda>_ _. True)"

definition empty_source :: data_source where
  "empty_source = source_of (\<lambda>_. Node [] None []) (Some 1) None (\<lambda>_ _. True)"

definition first_page :: model where
  "first_page =
     \<lparr> active_params = init_params,
       rows = Some (Node [] (Some []) [Node [VBool False, VInt 7] (Some [0]) [],
                                      Node [VBool False, VInt 9] (Some [1]) []]),
       row_id_mapper = [VInt 7 \<mapsto> [0], VInt 9 \<mapsto> [1]],
       id_column_idx = Some 1, parent_column_idx = None, flat_column_idx = None,
       total_recs = Some 2, columns = selected_columns,
       ds_calls = [Load init_params], signals = [DataLoaded 2] \<rparr>"

definition second_page :: model where
  "second_page =
     first_page\<lparr>
       active_params := init_params\<lparr> page := Some 1, parent_id := Some VNone \<rparr>,
       rows := Some (Node [] (Some []) [Node [VBool False, VInt 7] (Some [0]) [],
                                       Node [VBool False, VInt 9] (Some [1]) [],
                                       Node [VBool False, VInt 11] (Some [2]) []]),
       row_id_mapper := [VInt 7 \<mapsto> [0], VInt 9 \<mapsto> [1], VInt 11 \<mapsto> [2]],
       ds_calls := [Load init_params, Load (init_params\<lparr> page := Some 1, parent_id := Some VNone \<rparr>)],
       signals := [DataLoaded 2, RowInserted [2]] \<rparr>"

text \<open>The first page again, from a data source that has a parent column.\<close>

definition tree_page :: model where
  "tree_page = first_page\<lparr> parent_column_idx := Some 2 \<rparr>"

text \<open>
  The first page after \<open>add_rows\<close> asked for the children of its first row and got none.
\<close>

definition asked_page :: model where
  "asked_page =
     first_page\<lparr>
       active_params := init_params\<lparr> parent_id := Some (VInt 7) \<rparr>,
       ds_calls := [Load init_params, Load (init_params\<lparr> parent_id := Some (VInt 7) \<rparr>)] \<rparr>"

text \<open>Refreshed models of an empty table and of a table without an id column.\<close>

definition empty_page :: model where
  "empty_page = snd (refresh empty_source (init_model selected_columns))"

definition no_id_page :: model where
  "no_id_page = snd (refresh no_id_source (init_model selected_columns))"

section \<open>The controller's date filter: \<open>DataGridController\<close>\<close>

definition MIN_TIMESTAMP :: int where
  "MIN_TIMESTAMP = 0"

definition MAX_TIMESTAMP :: int where
  "MAX_TIMESTAMP = 2147485547"

text \<open>
  Lines 880 to 890 of \<open>_refresh_view\<close>: the keys to remove are popped from the \<open>where\<close>
  dictionary, the updates are written into it, and an empty dictionary is deleted from the
  parameters. The refresh of the view follows.
\<close>

definition refresh_view_params ::
  "(where_key \<times> clause) list option \<Rightarrow> where_key list option \<Rightarrow> params \<Rightarrow> params" where
  "refresh_view_params update_dict remove_keys ps =
     (let where_dict = (case where_clauses ps of None \<Rightarrow> [] | Some w \<Rightarrow> w);
          where_dict = (case remove_keys of
                          None \<Rightarrow> where_dict
                        | Some keys \<Rightarrow> fold AList.delete keys where_dict);
          where_dict = (case update_dict of
                          None \<Rightarrow> where_dict
                        | Some updates \<Rightarrow> fold (\<lambda>(k, c). AList.update k c) updates where_dict)
      in ps\<lparr> where_clauses := (if where_dict = [] then None else Some where_dict) \<rparr>)"

text \<open>
  What \<open>on_date_change\<close> reads from the widgets: the texts of the two date entries, the
  index of the active row of the date column chooser (\<open>-1\<close> when no row is active) and the
  column names in the chooser's list. Iterating over the chooser's list makes a new row
  object for each row; \<open>last_row_object\<close> is the identity of the one made for the last row.
\<close>

record date_widgets =
  date_start :: string
  date_end :: string
  active_date_column :: int
  model_date_columns :: "string list"
  last_row_object :: nat

text \<open>
  Lines 812 to 845. \<open>get_timestamp_from_str\<close> stands for \<open>_get_timestamp_from_str\<close>,
  which parses with the date library in the local time zone and can raise. The variable
  \<open>column\<close> is the loop variable of the list comprehension of line 836 and is assigned
  again in line 838 only when a row of the chooser is active. The sources are Python 2
  (\<open>0L\<close>, \<open>long\<close>, \<open>basestring\<close>), where the loop variable of a list comprehension belongs
  to the function: after the comprehension \<open>column\<close> is the row object of the last row of
  the chooser's list, and it is unassigned when the list is empty. So with no active row
  line 840 builds the update under that row object, a key by its identity, and with an
  empty list it raises \<open>UnboundLocalError\<close>.
\<close>

definition on_date_change ::
  "(string \<Rightarrow> error + int) \<Rightarrow> date_widgets \<Rightarrow> model \<Rightarrow> error + model" where
  "on_date_change get_timestamp_from_str w m =
     (case (if date_start w \<noteq> [] then get_timestamp_from_str (date_start w @ '' 00:00'')
            else Inr MIN_TIMESTAMP) of
        Inl e \<Rightarrow> Inl e
      | Inr start_timestamp \<Rightarrow>
          (case (if date_end w \<noteq> [] then get_timestamp_from_str (date_end w @ '' 23:59'')
                 else Inr MAX_TIMESTAMP) of
             Inl e \<Rightarrow> Inl e
           | Inr end_timestamp \<Rightarrow>
               (let remove_columns = map ColumnName (model_date_columns w);
                    column = (if model_date_columns w = [] then None
                              else Some (RowObject (last_row_object w)));
                    refreshed = (\<lambda>column.
                      (let update_dict = [(column, \<lparr> operator = ''range'',
                                                     clause_param = Range start_timestamp end_timestamp \<rparr>)]
                       in Inr (m\<lparr> active_params :=
                                    refresh_view_params (Some update_dict) (Some remove_columns)
                                      (active_params m) \<rparr>)))
                in if active_date_column w \<ge> 0 then
                     (if nat (active_date_column w) < length (model_date_columns w)
                      then refreshed (ColumnName (model_date_columns w ! nat (active_date_column w)))
                      else Inl IndexError)
                   else (case column of
                           None \<Rightarrow> Inl UnboundLocalError
                         | Some row_object \<Rightarrow> refreshed row_object))))"

text \<open>The widgets after the data source was bound a second time: no row is active.\<close>

definition rebound_widgets :: date_widgets where
  "rebound_widgets = \<lparr> date_start = ''19-Jun-2014'', date_end = [], active_date_column = - 1,
                        model_date_columns = [''created''], last_row_object = 0 \<rparr>"

definition chosen_widgets :: date_widgets where
  "chosen_widgets = \<lparr> date_start = [], date_end = [], active_date_column = 1,
                       model_date_columns = [''created'', ''modified''], last_row_object = 1 \<rparr>"

section \<open>Reading and writing cells: \<open>get_formatted_value\<close>, \<open>on_get_value\<close>, \<open>set_value\<close>\<close>

text \<open>Python's \<open>bool(value)\<close>.\<close>

definition py_bool :: "val \<Rightarrow> bool" where
  "py_bool v = (case v of VNone \<Rightarrow> False | VBool b \<Rightarrow> b | VInt i \<Rightarrow> i \<noteq> 0 | VStr s \<Rightarrow> s \<noteq> [])"

text \<open>
  Python's \<open>int(value)\<close>: \<open>None\<close> raises \<open>TypeError\<close>; a string must be a decimal
  literal, with an optional sign directly before the digits and with white space around
  it allowed, and raises \<open>ValueError\<close> otherwise. The grammar is the one of Python 2,
  the language of these sources: no underscores between the digits. A string is a text
  string, given as the list of its code points, which the type \<open>char\<close> has up to 255; the
  white space among these is the one of Unicode: the ASCII white space, the separators
  \<open>0x1C\<close> to \<open>0x1F\<close>, the next-line character \<open>0x85\<close> and the no-break space \<open>0xA0\<close>. The
  only decimal digits among these code points are the ASCII digits.
\<close>

definition is_space :: "char \<Rightarrow> bool" where
  "is_space c \<longleftrightarrow>
     c \<in> set [CHR '' '', CHR 0x09, CHR 0x0A, CHR 0x0B, CHR 0x0C, CHR 0x0D,
              CHR 0x1C, CHR 0x1D, CHR 0x1E, CHR 0x1F, CHR 0x85, CHR 0xA0]"

definition digit_value :: "char \<Rightarrow> nat option" where
  "digit_value c =
     map_of [(CHR ''0'', 0), (CHR ''1'', 1), (CHR ''2'', 2), (CHR ''3'', 3), (CHR ''4'', 4),
             (CHR ''5'', 5), (CHR ''6'', 6), (CHR ''7'', 7), (CHR ''8'', 8), (CHR ''9'', 9)] c"

fun digits_value :: "nat \<Rightarrow> string \<Rightarrow> nat option" where
  "digits_value acc [] = Some acc"
| "digits_value acc (c # cs) =
     (case digit_value c of None \<Rightarrow> None | Some d \<Rightarrow> digits_value (10 * acc + d) cs)"

definition py_int_of_string :: "string \<Rightarrow> error + int" where
  "py_int_of_string s =
     (let t = dropWhile is_space (rev (dropWhile is_space (rev s)));
          negative = (t \<noteq> [] \<and> hd t = CHR ''-'');
          ds = (if t \<noteq> [] \<and> (hd t = CHR ''-'' \<or> hd t = CHR ''+'') then tl t else t)
      in if ds = [] then Inl ValueError
         else case digits_value 0 ds of
                None \<Rightarrow> Inl ValueError
              | Some n \<Rightarrow> Inr (if negative then - int n else int n))"

definition py_int :: "val \<Rightarrow> error + int" where
  "py_int v =
     (case v of
        VNone \<Rightarrow> Inl TypeError
      | VBool b \<Rightarrow> Inr (if b then 1 else 0)
      | VInt i \<Rightarrow> Inr i
      | VStr s \<Rightarrow> py_int_of_string s)"

text \<open>
  What a cell shows: the raw value, a plain boolean, or what a transformer made of the
  value. The transformer registry is outside these sources: \<open>has_transformer\<close> tells
  whether \<open>get_transformer\<close> finds a transformer for a name, and \<open>transformed\<close> is the
  result of lines 1722 to 1772 (the image placeholders, the options and the call of the
  transformer) for a name, a value, a column and the visibility.
\<close>

datatype 'f cell = Raw val | Flag bool | Shown 'f

record 'f formatting =
  has_transformer :: "string \<Rightarrow> bool"
  transformed :: "string \<Rightarrow> val \<Rightarrow> nat \<Rightarrow> bool \<Rightarrow> 'f"

text \<open>Lines 1694 to 1772.\<close>

definition get_formatted_value ::
  "'f formatting \<Rightarrow> model \<Rightarrow> val \<Rightarrow> nat \<Rightarrow> bool \<Rightarrow> error + 'f cell" where
  "get_formatted_value F m v column_index visible =
     (if column_index < length (columns m) then
        (let col_dict = columns m ! column_index;
             col_name = name col_dict;
             transformer_name = (case transform col_dict of
                                   None \<Rightarrow> ''string''
                                 | Some t \<Rightarrow> if t = [] then ''string'' else t)
         in if \<not> has_transformer F transformer_name then Inr (Raw v)
            else if transformer_name = ''boolean'' \<and> col_name = ''__selected''
                 then Inr (Flag (py_bool v))
                 else Inr (Shown (transformed F transformer_name v column_index visible)))
      else Inl IndexError)"

text \<open>
  Lines 1918 to 1935. The column is an option because \<open>set_value\<close> passes
  \<open>self.id_column_idx\<close>, which may be \<open>None\<close>; indexing the row's data with \<open>None\<close>
  raises \<open>TypeError\<close>. The row comes from \<open>_get_row_by_path\<close>, which may load its
  children. Whether the row is in the visible range is the argument \<open>visible\<close>.
\<close>

definition on_get_value ::
  "'f formatting \<Rightarrow> (nat list option \<Rightarrow> model \<Rightarrow> bool outcome) \<Rightarrow> data_source \<Rightarrow> nat list
   \<Rightarrow> nat option \<Rightarrow> bool \<Rightarrow> model \<Rightarrow> 'f cell outcome" where
  "on_get_value F nested ds rowref col visible m =
     bind_outcome (get_row_by_path nested ds rowref m)
       (\<lambda>_ m1.
          case rows m1 of
            None \<Rightarrow> Some (Inl TypeError, m1)
          | Some root \<Rightarrow>
              (case get_node root rowref of
                 None \<Rightarrow> Some (Inl IndexError, m1)
               | Some row \<Rightarrow>
                   (case col of
                      None \<Rightarrow> Some (Inl TypeError, m1)
                    | Some c \<Rightarrow>
                        if c < length (data row) then
                          (let raw = data row ! c in
                           if col = id_column_idx m1 \<or> col = parent_column_idx m1
                           then Some (Inr (Raw raw), m1)
                           else (case get_formatted_value F m1 raw c visible of
                                   Inl e \<Rightarrow> Some (Inl e, m1)
                                 | Inr shown \<Rightarrow> Some (Inr shown, m1)))
                        else Some (Inl IndexError, m1))))"

text \<open>
  Lines 1774 to 1793. The toolkit's \<open>get_path\<close> and \<open>get_value\<close> go to \<open>on_get_path\<close>
  (the iterator is the path) and to \<open>on_get_value\<close>. The arguments of
  \<open>update_data_source\<close> are evaluated from the left: the column name first, then
  \<open>int(id_)\<close>. The update is recorded in the calls of the data source.
\<close>

definition set_value ::
  "'f formatting \<Rightarrow> (nat list option \<Rightarrow> model \<Rightarrow> bool outcome) \<Rightarrow> data_source \<Rightarrow> nat list
   \<Rightarrow> nat \<Rightarrow> val \<Rightarrow> bool \<Rightarrow> model \<Rightarrow> unit outcome" where
  "set_value F nested ds itr col v emit_event m =
     bind_outcome (get_row_by_path nested ds itr m)
       (\<lambda>_ m1.
          case rows m1 of
            None \<Rightarrow> Some (Inl TypeError, m1)
          | Some root \<Rightarrow>
              (case get_node root itr of
                 None \<Rightarrow> Some (Inl IndexError, m1)
               | Some row \<Rightarrow>
                   if col < length (data row) then
                     (let m2 = m1\<lparr> rows :=
                                  Some (update_node (set_data ((data row)[col := v])) itr root) \<rparr>
                      in bind_outcome (on_get_value F nested ds itr (id_column_idx m2) True m2)
                           (\<lambda>id_cell m3.
                              if col < length (columns m3) then
                                (case (case id_cell of Raw id_value \<Rightarrow> py_int id_value
                                       | _ \<Rightarrow> Inl TypeError) of
                                   Inl e \<Rightarrow> Some (Inl e, m3)
                                 | Inr id_int \<Rightarrow>
                                     (let m4 = m3\<lparr> ds_calls := ds_calls m3
                                                   @ [Update (name (columns m3 ! col)) v [id_int]] \<rparr>
                                      in Some (Inr (),
                                               if emit_event
                                               then m4\<lparr> signals := signals m4 @ [RowChanged itr] \<rparr>
                                               else m4)))
                              else Some (Inl IndexError, m3)))
                   else Some (Inl IndexError, m1)))"

text \<open>A table whose id column holds strings, and a registry with the usual transformers.\<close>

definition string_rows :: node where
  "string_rows = Node [] None [Node [VBool False, VStr ''a1'', VStr ''first''] None []]"

definition string_source :: data_source where
  "string_source = source_of (\<lambda>_. string_rows) (Some 1) None (\<lambda>_ _. True)"

definition string_page :: model where
  "string_page =
     \<lparr> active_params = init_params,
       rows = Some (Node [] (Some []) [Node [VBool False, VStr ''a1'', VStr ''first''] (Some [0]) []]),
       row_id_mapper = [VStr ''a1'' \<mapsto> [0]],
       id_column_idx = Some 1, parent_column_idx = None, flat_column_idx = None,
       total_recs = Some 1, columns = selected_columns,
       ds_calls = [Load init_params], signals = [DataLoaded 1] \<rparr>"

definition plain_formatting :: "val formatting" where
  "plain_formatting =
     \<lparr> has_transformer = (\<lambda>n. n \<in> set [''string'', ''html'', ''boolean'', ''image'']),
       transformed = (\<lambda>n v c visible. v) \<rparr>"

section \<open>The tree view's expansion state: \<open>DataGridView\<close>\<close>

text \<open>
  Lines 1820 to 1829 of \<open>iter_rows\<close>, without loading: the resident rows, depth first,
  a row before its children.
\<close>

fun iter_children_aux :: "node \<Rightarrow> node list" where
  "iter_children_aux (Node d p cs) = concat (map (\<lambda>row. row # iter_children_aux row) cs)"

text \<open>
  Modelled from the spec: \<open>Node.is_children_loaded\<close> with \<open>recursive=True\<close>, which is
  not among these sources. The data model describes a children-loaded flag with a
  recursive check across descendants: the node's own check and that of every resident
  descendant.
\<close>

fun is_children_loaded_recursive :: "data_source \<Rightarrow> node \<Rightarrow> bool" where
  "is_children_loaded_recursive ds (Node d p cs) \<longleftrightarrow>
     is_children_loaded ds False (Node d p cs)
     \<and> (\<forall>c \<in> set cs. is_children_loaded_recursive ds c)"

text \<open>
  The fields of the view that the expansion tracking uses (lines 944 to 947), and the
  \<open>all-expanded\<close> signals it has emitted.
\<close>

record view =
  expandable_ids :: "val set"
  expanded_ids :: "val set"
  all_expanded :: bool
  block_all_expanded :: bool
  all_expanded_signals :: "bool list"


text \<open>
  Lines 1134 to 1137, the loop that fills \<open>_expandable_ids\<close>: the id of every row that
  has children. A row without the id column stops the loop with what was added so far.
\<close>

fun collect_expandable :: "nat option \<Rightarrow> node list \<Rightarrow> val set \<Rightarrow> (error + unit) \<times> val set" where
  "collect_expandable idx [] ids = (Inr (), ids)"
| "collect_expandable idx (row # rest) ids =
     (if length (children row) \<noteq> 0 then
        (case idx of
           None \<Rightarrow> (Inl TypeError, ids)
         | Some i \<Rightarrow>
             if i < length (data row)
             then collect_expandable idx rest (insert (dict_key (data row ! i)) ids)
             else (Inl IndexError, ids))
      else collect_expandable idx rest ids)"

text \<open>
  Lines 1125 to 1139. The result is \<open>None\<close> when the set cannot be determined. A set that
  is cached and not empty is returned as it is.
\<close>

definition get_expandable_ids ::
  "data_source \<Rightarrow> model \<Rightarrow> view \<Rightarrow> (error + val set option) \<times> view" where
  "get_expandable_ids ds m v =
     (if expandable_ids v = {} then
        (case rows m of
           None \<Rightarrow> (Inl AttributeError, v)
         | Some root \<Rightarrow>
             if \<not> is_children_loaded_recursive ds root then (Inr None, v)
             else (case collect_expandable (id_column_idx m) (iter_children_aux root)
                          (expandable_ids v) of
                     (r, ids) \<Rightarrow>
                       (let v' = v\<lparr> expandable_ids := ids \<rparr> in
                        case r of Inl e \<Rightarrow> (Inl e, v') | Inr _ \<Rightarrow> (Inr (Some ids), v'))))
      else (Inr (Some (expandable_ids v)), v))"

text \<open>Lines 1141 to 1149. A set is never equal to \<open>None\<close>.\<close>

definition check_all_expanded :: "data_source \<Rightarrow> model \<Rightarrow> view \<Rightarrow> (error + unit) \<times> view" where
  "check_all_expanded ds m v =
     (if block_all_expanded v then (Inr (), v)
      else
        (let old_all_expanded = all_expanded v in
         case get_expandable_ids ds m v of
           (Inl e, v1) \<Rightarrow> (Inl e, v1)
         | (Inr ids, v1) \<Rightarrow>
             (let v2 = v1\<lparr> all_expanded :=
                            (case ids of None \<Rightarrow> False | Some s \<Rightarrow> expanded_ids v1 = s) \<rparr>
              in (Inr (),
                  if all_expanded v2 \<noteq> old_all_expanded
                  then v2\<lparr> all_expanded_signals := all_expanded_signals v2 @ [all_expanded v2] \<rparr>
                  else v2))))"



text \<open>The ids of the resident rows that have children.\<close>

definition expandable_rows :: "model \<Rightarrow> val set" where
  "expandable_rows m =
     (case (rows m, id_column_idx m) of
        (Some root, Some i) \<Rightarrow>
          set (map (\<lambda>row. dict_key (data row ! i))
                 (filter (\<lambda>row. children row \<noteq> []) (iter_children_aux root)))
      | _ \<Rightarrow> {})"

text \<open>Whether the recursive check succeeds on the resident hierarchy.\<close>

definition fully_loaded :: "data_source \<Rightarrow> model \<Rightarrow> bool" where
  "fully_loaded ds m = (case rows m of None \<Rightarrow> False | Some root \<Rightarrow> is_children_loaded_recursive ds root)"

subsection \<open>Concrete inputs for the expansion state\<close>



text \<open>The model after a refresh from this source, and after one more page.\<close>

definition folders_page :: model where
  "folders_page =
     \<lparr> active_params = init_params,
       rows = Some (Node [] (Some []) [Node [VBool False, VInt 1] (Some [0])
                                        [Node [VBool False, VInt 2] None []]]),
       row_id_mapper = [VInt 1 \<mapsto> [0]],
       id_column_idx = Some 1, parent_column_idx = None, flat_column_idx = None,
       total_recs = Some 1, columns = selected_columns,
       ds_calls = [Load init_params], signals = [DataLoaded 1] \<rparr>"

definition more_folders :: model where
  "more_folders =
     folders_page\<lparr>
       active_params := init_params\<lparr> page := Some 1, parent_id := Some VNone \<rparr>,
       rows := Some (Node [] (Some []) [Node [VBool False, VInt 1] (Some [0])
                                         [Node [VBool False, VInt 2] None []],
                                       Node [VBool False, VInt 3] (Some [1])
                                         [Node [VBool False, VInt 4] None []]]),
       row_id_mapper := [VInt 1 \<mapsto> [0], VInt 3 \<mapsto> [1]],
       ds_calls := [Load init_params, Load (init_params\<lparr> page := Some 1, parent_id := Some VNone \<rparr>)],
       signals := [DataLoaded 1, RowInserted [1]] \<rparr>"


section \<open>Properties of the image utilities\<close>

lemma split_on_no_sep: "c \<notin> set s \<Longrightarrow> split_on c s = [s]"
  by (induction s) auto

lemma split_on_one_sep:
  "c \<notin> set t \<Longrightarrow> c \<notin> set s \<Longrightarrow> split_on c (t @ c # s) = [t, s]"
  by (induction t) (auto simp: split_on_no_sep)

lemma length_split_on: "length (split_on c s) = Suc (count_list s c)"
  by (induction s) (auto split: list.splits)

lemma count_list_one:
  "count_list g c = 1 \<longleftrightarrow> (\<exists>t s. g = t @ c # s \<and> c \<notin> set t \<and> c \<notin> set s)"
proof
  assume "count_list g c = 1"
  then show "\<exists>t s. g = t @ c # s \<and> c \<notin> set t \<and> c \<notin> set s"
  proof (induction g)
    case Nil
    then show ?case by simp
  next
    case (Cons x xs)
    show ?case
    proof (cases "x = c")
      case True
      with Cons.prems have "count_list xs c = 0" by simp
      then have "c \<notin> set xs" by (simp add: count_list_0_iff)
      with True have "x # xs = [] @ c # xs \<and> c \<notin> set [] \<and> c \<notin> set xs" by simp
      then show ?thesis by blast
    next
      case False
      with Cons.prems have "count_list xs c = 1" by simp
      from Cons.IH [OF this] obtain t s where "xs = t @ c # s" "c \<notin> set t" "c \<notin> set s" by blast
      with False have "x # xs = (x # t) @ c # s \<and> c \<notin> set (x # t) \<and> c \<notin> set s" by simp
      then show ?thesis by blast
    qed
  qed
next
  assume "\<exists>t s. g = t @ c # s \<and> c \<notin> set t \<and> c \<notin> set s"
  then obtain t s where "g = t @ c # s" "c \<notin> set t" "c \<notin> set s" by blast
  then show "count_list g c = 1" by (simp add: count_list_0_iff)
qed

lemma until_sep:
  "c \<notin> set t \<Longrightarrow> takeWhile (\<lambda>x. x \<noteq> c) (t @ c # s) = t"
  "c \<notin> set t \<Longrightarrow> dropWhile (\<lambda>x. x \<noteq> c) (t @ c # s) = c # s"
  by (induction t) auto

lemma split_on_first:
  "count_list g c = 1 \<Longrightarrow> split_on c g = [takeWhile (\<lambda>x. x \<noteq> c) g, tl (dropWhile (\<lambda>x. x \<noteq> c) g)]"
proof -
  assume "count_list g c = 1"
  then obtain t s where g: "g = t @ c # s" and t: "c \<notin> set t" and s: "c \<notin> set s"
    using count_list_one [of g c] by blast
  from t have "takeWhile (\<lambda>x. x \<noteq> c) (t @ c # s) = t"
    by (rule until_sep)
  moreover from t have "dropWhile (\<lambda>x. x \<noteq> c) (t @ c # s) = c # s"
    by (rule until_sep)
  ultimately show ?thesis using g split_on_one_sep [OF t s] by simp
qed

lemma mimetype_details_cases:
  "mimetype_details env filename =
     (if isdir env filename then Inr (''folder'', ''folder'')
      else case guess_type env filename of
             None \<Rightarrow> Inr (''unknown'', ''unknown'')
           | Some g \<Rightarrow>
               if g = [] then Inr (''unknown'', ''unknown'')
               else if count_list g (CHR ''/'') = 1
                    then Inr (takeWhile (\<lambda>x. x \<noteq> CHR ''/'') g,
                              tl (dropWhile (\<lambda>x. x \<noteq> CHR ''/'') g))
                    else Inl ValueError)"
proof -
  have u: "split_on (CHR ''/'') ''unknown/unknown'' = [''unknown'', ''unknown'']" by simp
  have n: "(case split_on (CHR ''/'') g of [mimetype, details] \<Rightarrow> Inr (mimetype, details)
              | _ \<Rightarrow> Inl ValueError) = (Inl ValueError :: error + string \<times> string)"
    if "count_list g (CHR ''/'') \<noteq> 1" for g
  proof -
    from length_split_on [of "CHR ''/''" g] that have "length (split_on (CHR ''/'') g) \<noteq> 2" by simp
    then show ?thesis by (auto split: list.splits)
  qed
  show ?thesis
    by (auto simp: mimetype_details_def guessed_mime_def u n split_on_first
             simp del: split_on.simps split: option.splits)
qed

text \<open>
  C6. For a file (not a directory) whose mimetype is guessed as \<open>t/s\<close>, the candidate
  list handed to the icon theme is \<open>t-s\<close>, \<open>s\<close>, \<open>t\<close>, then \<open>application-x-s\<close> exactly when
  \<open>t\<close> is \<open>application\<close>, then \<open>t-x-generic\<close>, then \<open>unknown\<close>, in this order. When guessing
  fails (no guess, or an empty one) the list is the one of \<open>unknown/unknown\<close>. The guess
  \<open>image/png\<close> gives \<open>image-png\<close>, \<open>png\<close>, \<open>image\<close>, \<open>image-x-generic\<close>, \<open>unknown\<close>.
\<close>

theorem icon_candidates_order:
  "(\<not> isdir env filename \<and> guess_type env filename = Some (t @ ''/'' @ s)
      \<and> CHR ''/'' \<notin> set t \<and> CHR ''/'' \<notin> set s
      \<longrightarrow> icon_candidates env filename =
            Inr ([t @ ''-'' @ s, s, t]
                 @ (if t = ''application'' then [''application-x-'' @ s] else [])
                 @ [t @ ''-x-generic'', ''unknown'']))
   \<and> (\<not> isdir env filename
      \<and> (guess_type env filename = None \<or> guess_type env filename = Some [])
      \<longrightarrow> icon_candidates env filename =
            Inr [''unknown-unknown'', ''unknown'', ''unknown'', ''unknown-x-generic'', ''unknown''])
   \<and> (\<not> isdir env filename \<and> guess_type env filename = Some ''image/png''
      \<longrightarrow> icon_candidates env filename =
            Inr [''image-png'', ''png'', ''image'', ''image-x-generic'', ''unknown''])"
proof -
  have A: "\<not> isdir env filename \<and> guess_type env filename = Some (t @ ''/'' @ s)
      \<and> CHR ''/'' \<notin> set t \<and> CHR ''/'' \<notin> set s
      \<longrightarrow> icon_candidates env filename =
            Inr ([t @ ''-'' @ s, s, t]
                 @ (if t = ''application'' then [''application-x-'' @ s] else [])
                 @ [t @ ''-x-generic'', ''unknown''])"
  proof
    assume h: "\<not> isdir env filename \<and> guess_type env filename = Some (t @ ''/'' @ s)
      \<and> CHR ''/'' \<notin> set t \<and> CHR ''/'' \<notin> set s"
    then have "guessed_mime env filename = t @ ''/'' @ s" by (simp add: guessed_mime_def)
    with h split_on_one_sep [of "CHR ''/''" t s]
    have "mimetype_details env filename = Inr (t, s)" by (simp add: mimetype_details_def)
    then show "icon_candidates env filename =
            Inr ([t @ ''-'' @ s, s, t]
                 @ (if t = ''application'' then [''application-x-'' @ s] else [])
                 @ [t @ ''-x-generic'', ''unknown''])"
      by (simp add: icon_candidates_def icon_list_def)
  qed
  have B: "\<not> isdir env filename
      \<and> (guess_type env filename = None \<or> guess_type env filename = Some [])
      \<longrightarrow> icon_candidates env filename =
            Inr [''unknown-unknown'', ''unknown'', ''unknown'', ''unknown-x-generic'', ''unknown'']"
    by (auto simp: icon_candidates_def mimetype_details_def guessed_mime_def icon_list_def)
  have C: "\<not> isdir env filename \<and> guess_type env filename = Some ''image/png''
      \<longrightarrow> icon_candidates env filename =
            Inr [''image-png'', ''png'', ''image'', ''image-x-generic'', ''unknown'']"
    by (simp add: icon_candidates_def mimetype_details_def guessed_mime_def icon_list_def)
  from A B C show ?thesis by (intro conjI)
qed

theorem icon_candidates_order_witness:
  "\<not> isdir png_env ''a.png''
   \<and> guess_type png_env ''a.png'' = Some (''image'' @ ''/'' @ ''png'')
   \<and> icon_candidates png_env ''a.png''
       = Inr [''image-png'', ''png'', ''image'', ''image-x-generic'', ''unknown'']
   \<and> \<not> isdir bare_theme_env ''notes.xyz''
   \<and> guess_type bare_theme_env ''notes.xyz'' = None
   \<and> icon_candidates bare_theme_env ''notes.xyz''
       = Inr [''unknown-unknown'', ''unknown'', ''unknown'', ''unknown-x-generic'', ''unknown'']"
proof -
  have d: "\<not> isdir png_env ''a.png''" "\<not> isdir bare_theme_env ''notes.xyz''"
    by (simp_all add: png_env_def bare_theme_env_def)
  have g: "guess_type png_env ''a.png'' = Some (''image'' @ ''/'' @ ''png'')"
    "guess_type bare_theme_env ''notes.xyz'' = None"
    by (simp_all add: png_env_def bare_theme_env_def)
  have s: "CHR ''/'' \<notin> set ''image''" "CHR ''/'' \<notin> set ''png''" by simp_all
  from icon_candidates_order [of png_env "''a.png''" "''image''" "''png''"] d g s
  have 1: "icon_candidates png_env ''a.png''
       = Inr [''image-png'', ''png'', ''image'', ''image-x-generic'', ''unknown'']" by simp
  from icon_candidates_order [of bare_theme_env "''notes.xyz''"] d g
  have 2: "icon_candidates bare_theme_env ''notes.xyz''
       = Inr [''unknown-unknown'', ''unknown'', ''unknown'', ''unknown-x-generic'', ''unknown'']"
    by blast
  from d g 1 2 show ?thesis by blast
qed

text \<open>
  C4, as stated, fails: with a theme that resolves none of the candidates the operation
  raises \<open>AttributeError\<close>, it does not return an empty result.
\<close>

theorem get_icon_for_file_raises_counterexample:
  "get_icon_for_file bare_theme_env ''notes.xyz'' 24 = Inl AttributeError"
  by (simp add: get_icon_for_file_def icon_candidates_def mimetype_details_def
      guessed_mime_def bare_theme_env_def icon_list_def)

text \<open>
  C4, amended. The operation raises \<open>ValueError\<close> exactly when the file is not a directory
  and the guess is a non-empty string that does not contain exactly one slash. In every
  other case it hands a candidate list to the theme: the one of \<open>folder/folder\<close> for a
  directory, the one of \<open>unknown/unknown\<close> when there is no guess or an empty one, and for
  a guess with exactly one slash the one of the part before the slash as the type and the
  part after it as the subtype. It then raises \<open>AttributeError\<close> when the theme resolves
  none of the candidates at the requested size, and otherwise returns the file name of the
  icon the theme chose.
\<close>

theorem get_icon_for_file_result:
  "(get_icon_for_file env filename sz = Inl ValueError
      \<longleftrightarrow> \<not> isdir env filename
          \<and> (\<exists>g. guess_type env filename = Some g \<and> g \<noteq> [] \<and> count_list g (CHR ''/'') \<noteq> 1))
   \<and> (isdir env filename
      \<longrightarrow> get_icon_for_file env filename sz =
            (case choose_icon env
                    [''folder-folder'', ''folder'', ''folder'', ''folder-x-generic'', ''unknown''] sz of
               None \<Rightarrow> Inl AttributeError | Some p \<Rightarrow> Inr p))
   \<and> (\<not> isdir env filename
      \<and> (guess_type env filename = None \<or> guess_type env filename = Some [])
      \<longrightarrow> get_icon_for_file env filename sz =
            (case choose_icon env
                    [''unknown-unknown'', ''unknown'', ''unknown'', ''unknown-x-generic'', ''unknown''] sz of
               None \<Rightarrow> Inl AttributeError | Some p \<Rightarrow> Inr p))
   \<and> (\<not> isdir env filename \<and> guess_type env filename = Some g
      \<and> count_list g (CHR ''/'') = 1
      \<and> t = takeWhile (\<lambda>x. x \<noteq> CHR ''/'') g \<and> s = tl (dropWhile (\<lambda>x. x \<noteq> CHR ''/'') g)
      \<longrightarrow> g = t @ ''/'' @ s
          \<and> get_icon_for_file env filename sz =
              (case choose_icon env
                      ([t @ ''-'' @ s, s, t]
                       @ (if t = ''application'' then [''application-x-'' @ s] else [])
                       @ [t @ ''-x-generic'', ''unknown'']) sz of
                 None \<Rightarrow> Inl AttributeError | Some p \<Rightarrow> Inr p))"
proof -
  note d = mimetype_details_cases [of env filename]
  have A: "get_icon_for_file env filename sz = Inl ValueError
      \<longleftrightarrow> \<not> isdir env filename
          \<and> (\<exists>g. guess_type env filename = Some g \<and> g \<noteq> [] \<and> count_list g (CHR ''/'') \<noteq> 1)"
    by (auto simp: get_icon_for_file_def icon_candidates_def d split: option.splits if_splits)
  have B: "isdir env filename
      \<longrightarrow> get_icon_for_file env filename sz =
            (case choose_icon env
                    [''folder-folder'', ''folder'', ''folder'', ''folder-x-generic'', ''unknown''] sz of
               None \<Rightarrow> Inl AttributeError | Some p \<Rightarrow> Inr p)"
    by (simp add: get_icon_for_file_def icon_candidates_def d icon_list_def)
  have C: "\<not> isdir env filename
      \<and> (guess_type env filename = None \<or> guess_type env filename = Some [])
      \<longrightarrow> get_icon_for_file env filename sz =
            (case choose_icon env
                    [''unknown-unknown'', ''unknown'', ''unknown'', ''unknown-x-generic'', ''unknown''] sz of
               None \<Rightarrow> Inl AttributeError | Some p \<Rightarrow> Inr p)"
    by (auto simp: get_icon_for_file_def icon_candidates_def d icon_list_def)
  have D: "\<not> isdir env filename \<and> guess_type env filename = Some g
      \<and> count_list g (CHR ''/'') = 1
      \<and> t = takeWhile (\<lambda>x. x \<noteq> CHR ''/'') g \<and> s = tl (dropWhile (\<lambda>x. x \<noteq> CHR ''/'') g)
      \<longrightarrow> g = t @ ''/'' @ s
          \<and> get_icon_for_file env filename sz =
              (case choose_icon env
                      ([t @ ''-'' @ s, s, t]
                       @ (if t = ''application'' then [''application-x-'' @ s] else [])
                       @ [t @ ''-x-generic'', ''unknown'']) sz of
                 None \<Rightarrow> Inl AttributeError | Some p \<Rightarrow> Inr p)"
  proof
    assume h: "\<not> isdir env filename \<and> guess_type env filename = Some g
      \<and> count_list g (CHR ''/'') = 1
      \<and> t = takeWhile (\<lambda>x. x \<noteq> CHR ''/'') g \<and> s = tl (dropWhile (\<lambda>x. x \<noteq> CHR ''/'') g)"
    then have ne: "g \<noteq> []" by auto
    from h obtain t' s' where g: "g = t' @ CHR ''/'' # s'" and t': "CHR ''/'' \<notin> set t'"
      using count_list_one [of g "CHR ''/''"] by blast
    from t' have "takeWhile (\<lambda>x. x \<noteq> CHR ''/'') (t' @ CHR ''/'' # s') = t'"
      by (rule until_sep)
    moreover from t' have "dropWhile (\<lambda>x. x \<noteq> CHR ''/'') (t' @ CHR ''/'' # s') = CHR ''/'' # s'"
      by (rule until_sep)
    ultimately have 1: "g = t @ ''/'' @ s" using h g by simp
    from h ne have 2: "get_icon_for_file env filename sz =
              (case choose_icon env
                      ([t @ ''-'' @ s, s, t]
                       @ (if t = ''application'' then [''application-x-'' @ s] else [])
                       @ [t @ ''-x-generic'', ''unknown'']) sz of
                 None \<Rightarrow> Inl AttributeError | Some p \<Rightarrow> Inr p)"
      by (simp add: get_icon_for_file_def icon_candidates_def d icon_list_def)
    from 1 2 show "g = t @ ''/'' @ s
          \<and> get_icon_for_file env filename sz =
              (case choose_icon env
                      ([t @ ''-'' @ s, s, t]
                       @ (if t = ''application'' then [''application-x-'' @ s] else [])
                       @ [t @ ''-x-generic'', ''unknown'']) sz of
                 None \<Rightarrow> Inl AttributeError | Some p \<Rightarrow> Inr p)" by simp
  qed
  from A B C D show ?thesis by (intro conjI)
qed

theorem get_icon_for_file_result_witness:
  "\<not> isdir type_only_env ''README''
   \<and> guess_type type_only_env ''README'' = Some ''text''
   \<and> count_list ''text'' (CHR ''/'') \<noteq> 1
   \<and> get_icon_for_file type_only_env ''README'' 24 = Inl ValueError
   \<and> isdir dir_env ''/tmp''
   \<and> get_icon_for_file dir_env ''/tmp'' 24 = Inr (Some ''/usr/share/icons/folder.png'')
   \<and> \<not> isdir bare_theme_env ''notes.xyz''
   \<and> guess_type bare_theme_env ''notes.xyz'' = None
   \<and> get_icon_for_file bare_theme_env ''notes.xyz'' 24 = Inl AttributeError
   \<and> \<not> isdir png_env ''a.png''
   \<and> guess_type png_env ''a.png'' = Some ''image/png''
   \<and> count_list ''image/png'' (CHR ''/'') = 1
   \<and> get_icon_for_file png_env ''a.png'' 24 = Inr (Some ''/usr/share/icons/image.png'')"
proof -
  have e1: "\<not> isdir type_only_env ''README''" "guess_type type_only_env ''README'' = Some ''text''"
    "count_list ''text'' (CHR ''/'') \<noteq> 1" "''text'' \<noteq> []"
    by (simp_all add: type_only_env_def)
  with get_icon_for_file_result [of type_only_env "''README''" 24]
  have 1: "get_icon_for_file type_only_env ''README'' 24 = Inl ValueError" by blast
  have e2: "isdir dir_env ''/tmp''" by (simp add: dir_env_def)
  with get_icon_for_file_result [of dir_env "''/tmp''" 24]
  have 2: "get_icon_for_file dir_env ''/tmp'' 24 = Inr (Some ''/usr/share/icons/folder.png'')"
    by (simp add: dir_env_def)
  have e3: "\<not> isdir bare_theme_env ''notes.xyz''" "guess_type bare_theme_env ''notes.xyz'' = None"
    by (simp_all add: bare_theme_env_def)
  with get_icon_for_file_result [of bare_theme_env "''notes.xyz''" 24]
  have 3: "get_icon_for_file bare_theme_env ''notes.xyz'' 24 = Inl AttributeError"
    by (simp add: bare_theme_env_def)
  have e4: "\<not> isdir png_env ''a.png''" "guess_type png_env ''a.png'' = Some ''image/png''"
    "count_list ''image/png'' (CHR ''/'') = 1"
    by (simp_all add: png_env_def)
  have ts: "''image'' = takeWhile (\<lambda>x. x \<noteq> CHR ''/'') ''image/png''"
    "''png'' = tl (dropWhile (\<lambda>x. x \<noteq> CHR ''/'') ''image/png'')" by simp_all
  from get_icon_for_file_result [of png_env "''a.png''" 24 "''image/png''" "''image''" "''png''"]
    e4 ts
  have "get_icon_for_file png_env ''a.png'' 24 =
          (case choose_icon png_env
                  ([''image'' @ ''-'' @ ''png'', ''png'', ''image'']
                   @ (if ''image'' = ''application'' then [''application-x-'' @ ''png''] else [])
                   @ [''image'' @ ''-x-generic'', ''unknown'']) 24 of
             None \<Rightarrow> Inl AttributeError | Some p \<Rightarrow> Inr p)" by blast
  then have 4: "get_icon_for_file png_env ''a.png'' 24 = Inr (Some ''/usr/share/icons/image.png'')"
    by (simp add: png_env_def)
  from e1(1-3) 1 e2 2 e3 3 e4 4 show ?thesis by blast
qed

text \<open>Entries of the shadow cache are never removed or replaced.\<close>

lemma add_drop_shadow_keeps:
  "drop_shadows_cache st k = Some c
   \<Longrightarrow> drop_shadows_cache (snd (add_drop_shadow P st a)) k = Some c"
  by (auto simp: add_drop_shadow_def Let_def split: option.splits)

lemma add_drop_shadows_keeps:
  "drop_shadows_cache st k = Some c
   \<Longrightarrow> drop_shadows_cache (add_drop_shadows P st as) k = Some c"
  by (induction as arbitrary: st) (auto simp: add_drop_shadow_keeps)

lemma add_drop_shadow_cached:
  "drop_shadows_cache (snd (add_drop_shadow P st a)) (shadow_key P a) \<noteq> None"
  by (auto simp: add_drop_shadow_def Let_def split: option.splits)

lemma add_drop_shadow_hit:
  assumes "drop_shadows_cache st (shadow_key P a) = Some c"
  shows "add_drop_shadow P st a = (paste_image P c (image a) (image_position a), st)"
  using assms by (simp add: add_drop_shadow_def)

lemma add_drop_shadow_miss:
  assumes "drop_shadows_cache st (shadow_key P a) = None"
  shows "add_drop_shadow P st a =
           (paste_image P (blurred_shadow P a) (image a) (image_position a),
            st\<lparr> drop_shadows_cache := (drop_shadows_cache st)(shadow_key P a \<mapsto> blurred_shadow P a),
                blur_calls := blur_calls st + nat (iterations a) \<rparr>)"
  using assms by (simp add: add_drop_shadow_def Let_def)


lemma reuse_same_key:
  assumes "shadow_key P a2 = shadow_key P a1"
  shows "\<exists>c. drop_shadows_cache (snd (add_drop_shadow P st a1)) (shadow_key P a1) = Some c
           \<and> add_drop_shadow P (add_drop_shadows P (snd (add_drop_shadow P st a1)) between) a2
               = (paste_image P c (image a2) (image_position a2),
                  add_drop_shadows P (snd (add_drop_shadow P st a1)) between)"
proof -
  obtain c where c: "drop_shadows_cache (snd (add_drop_shadow P st a1)) (shadow_key P a1) = Some c"
    using add_drop_shadow_cached [of P st a1] by auto
  have "drop_shadows_cache (add_drop_shadows P (snd (add_drop_shadow P st a1)) between)
          (shadow_key P a2) = Some c"
    using c assms by (simp add: add_drop_shadows_keeps)
  from add_drop_shadow_hit [OF this] c show ?thesis by blast
qed

lemma other_keys:
  "k \<noteq> shadow_key P a1 \<Longrightarrow>
        drop_shadows_cache (snd (add_drop_shadow P st a1)) k = drop_shadows_cache st k"
  by (auto simp: add_drop_shadow_def Let_def split: option.splits)

lemma shadow_key_formula:
  "shadow_key P a =
     (fst (img_size P (image a)) + \<bar>fst (offset a)\<bar> + 2 * border_size a,
      snd (img_size P (image a)) + \<bar>snd (offset a)\<bar> + 2 * border_size a,
      iterations a, border_size a, offset a, shadow_color a)"
  by (simp add: shadow_key_def Let_def)

lemma blurred_shadow_formula:
  "blurred_shadow P a =
     ((blur P) ^^ nat (iterations a))
       (paste_color P
          (img_new P (fst (img_size P (image a)) + \<bar>fst (offset a)\<bar> + 2 * border_size a,
                      snd (img_size P (image a)) + \<bar>snd (offset a)\<bar> + 2 * border_size a)
             (255, 255, 255, 0))
          (shadow_color a)
          (border_size a + max (fst (offset a)) 0,
           border_size a + max (snd (offset a)) 0,
           border_size a + max (fst (offset a)) 0 + fst (img_size P (image a)),
           border_size a + max (snd (offset a)) 0 + snd (img_size P (image a))))"
  by (simp add: blurred_shadow_def Let_def)

lemma add_drop_shadow_second_miss:
  assumes "shadow_key P a2 \<noteq> shadow_key P a1" and "drop_shadows_cache st (shadow_key P a2) = None"
  shows "add_drop_shadow P (snd (add_drop_shadow P st a1)) a2 =
           (paste_image P (blurred_shadow P a2) (image a2) (image_position a2),
            (snd (add_drop_shadow P st a1))\<lparr>
               drop_shadows_cache :=
                 (drop_shadows_cache (snd (add_drop_shadow P st a1)))
                   (shadow_key P a2 \<mapsto> blurred_shadow P a2),
               blur_calls := blur_calls (snd (add_drop_shadow P st a1)) + nat (iterations a2) \<rparr>)"
proof -
  from other_keys [of "shadow_key P a2" P a1 st] assms
  have "drop_shadows_cache (snd (add_drop_shadow P st a1)) (shadow_key P a2) = None" by simp
  from add_drop_shadow_miss [OF this] show ?thesis .
qed

text \<open>
  C7. The key of a call is the tuple of the width of the image plus the absolute
  horizontal offset plus twice the border, the height likewise, the iterations, the
  border, the offset and the colour. Take any state of the cache, a call, any calls after
  it, and then a call with the same key: this last call applies no blur, leaves the cache
  as it is, and pastes its image on the canvas that the cache held for the key after the
  first call, which is the canvas the first call computed when the key was new. A call
  whose key is not in the cache makes a new transparent canvas of the key's width and
  height, paints the shadow rectangle on it, applies the blur \<open>iterations\<close> times, caches
  the result under the key and pastes the image on it. A call leaves every key other than
  its own as it was; so a second call that differs from the first in a component of the
  key, and whose key was not cached before, computes and caches its own canvas.
\<close>

theorem add_drop_shadow_cache_reuse:
  "shadow_key P a1 =
     (fst (img_size P (image a1)) + \<bar>fst (offset a1)\<bar> + 2 * border_size a1,
      snd (img_size P (image a1)) + \<bar>snd (offset a1)\<bar> + 2 * border_size a1,
      iterations a1, border_size a1, offset a1, shadow_color a1)
   \<and> (canvas =
         ((blur P) ^^ nat (iterations a1))
           (paste_color P
              (img_new P (fst (img_size P (image a1)) + \<bar>fst (offset a1)\<bar> + 2 * border_size a1,
                          snd (img_size P (image a1)) + \<bar>snd (offset a1)\<bar> + 2 * border_size a1)
                 (255, 255, 255, 0))
              (shadow_color a1)
              (border_size a1 + max (fst (offset a1)) 0,
               border_size a1 + max (snd (offset a1)) 0,
               border_size a1 + max (fst (offset a1)) 0 + fst (img_size P (image a1)),
               border_size a1 + max (snd (offset a1)) 0 + snd (img_size P (image a1))))
      \<longrightarrow>
        (drop_shadows_cache st (shadow_key P a1) = None \<longrightarrow>
           add_drop_shadow P st a1 =
             (paste_image P canvas (image a1)
                (border_size a1 - min (fst (offset a1)) 0, border_size a1 - min (snd (offset a1)) 0),
              st\<lparr> drop_shadows_cache := (drop_shadows_cache st)(shadow_key P a1 \<mapsto> canvas),
                  blur_calls := blur_calls st + nat (iterations a1) \<rparr>))
        \<and> (shadow_key P a2 = shadow_key P a1 \<longrightarrow>
             add_drop_shadow P (add_drop_shadows P (snd (add_drop_shadow P st a1)) between) a2
               = (paste_image P
                    (case drop_shadows_cache st (shadow_key P a1) of
                       None \<Rightarrow> canvas | Some cached \<Rightarrow> cached)
                    (image a2)
                    (border_size a2 - min (fst (offset a2)) 0,
                     border_size a2 - min (snd (offset a2)) 0),
                  add_drop_shadows P (snd (add_drop_shadow P st a1)) between)))
   \<and> (k \<noteq> shadow_key P a1 \<longrightarrow>
        drop_shadows_cache (snd (add_drop_shadow P st a1)) k = drop_shadows_cache st k)
   \<and> (shadow_key P a2 \<noteq> shadow_key P a1 \<and> drop_shadows_cache st (shadow_key P a2) = None \<longrightarrow>
        blur_calls (snd (add_drop_shadow P (snd (add_drop_shadow P st a1)) a2))
          = blur_calls (snd (add_drop_shadow P st a1)) + nat (iterations a2)
        \<and> drop_shadows_cache (snd (add_drop_shadow P (snd (add_drop_shadow P st a1)) a2))
             (shadow_key P a2) \<noteq> None
        \<and> drop_shadows_cache (snd (add_drop_shadow P (snd (add_drop_shadow P st a1)) a2))
             (shadow_key P a1)
           = drop_shadows_cache (snd (add_drop_shadow P st a1)) (shadow_key P a1))"
proof -
  let ?canvas = "blurred_shadow P a1"
  have A: "drop_shadows_cache st (shadow_key P a1) = None \<longrightarrow>
           add_drop_shadow P st a1 =
             (paste_image P ?canvas (image a1)
                (border_size a1 - min (fst (offset a1)) 0, border_size a1 - min (snd (offset a1)) 0),
              st\<lparr> drop_shadows_cache := (drop_shadows_cache st)(shadow_key P a1 \<mapsto> ?canvas),
                  blur_calls := blur_calls st + nat (iterations a1) \<rparr>)"
    using add_drop_shadow_miss [of st P a1] by (simp add: image_position_def)
  have B: "shadow_key P a2 = shadow_key P a1 \<longrightarrow>
             add_drop_shadow P (add_drop_shadows P (snd (add_drop_shadow P st a1)) between) a2
               = (paste_image P
                    (case drop_shadows_cache st (shadow_key P a1) of
                       None \<Rightarrow> ?canvas | Some cached \<Rightarrow> cached)
                    (image a2)
                    (border_size a2 - min (fst (offset a2)) 0,
                     border_size a2 - min (snd (offset a2)) 0),
                  add_drop_shadows P (snd (add_drop_shadow P st a1)) between)"
  proof
    assume same: "shadow_key P a2 = shadow_key P a1"
    from reuse_same_key [OF same, of st between] obtain c where
      c: "drop_shadows_cache (snd (add_drop_shadow P st a1)) (shadow_key P a1) = Some c"
      and r: "add_drop_shadow P (add_drop_shadows P (snd (add_drop_shadow P st a1)) between) a2
               = (paste_image P c (image a2) (image_position a2),
                  add_drop_shadows P (snd (add_drop_shadow P st a1)) between)"
      by blast
    from c have "c = (case drop_shadows_cache st (shadow_key P a1) of
                       None \<Rightarrow> ?canvas | Some cached \<Rightarrow> cached)"
      by (auto simp: add_drop_shadow_def Let_def split: option.splits)
    with r show "add_drop_shadow P (add_drop_shadows P (snd (add_drop_shadow P st a1)) between) a2
               = (paste_image P
                    (case drop_shadows_cache st (shadow_key P a1) of
                       None \<Rightarrow> ?canvas | Some cached \<Rightarrow> cached)
                    (image a2)
                    (border_size a2 - min (fst (offset a2)) 0,
                     border_size a2 - min (snd (offset a2)) 0),
                  add_drop_shadows P (snd (add_drop_shadow P st a1)) between)"
      by (simp add: image_position_def)
  qed
  have C: "k \<noteq> shadow_key P a1 \<longrightarrow>
        drop_shadows_cache (snd (add_drop_shadow P st a1)) k = drop_shadows_cache st k"
    using other_keys [of k P a1 st] by blast
  have D: "shadow_key P a2 \<noteq> shadow_key P a1 \<and> drop_shadows_cache st (shadow_key P a2) = None \<longrightarrow>
        blur_calls (snd (add_drop_shadow P (snd (add_drop_shadow P st a1)) a2))
          = blur_calls (snd (add_drop_shadow P st a1)) + nat (iterations a2)
        \<and> drop_shadows_cache (snd (add_drop_shadow P (snd (add_drop_shadow P st a1)) a2))
             (shadow_key P a2) \<noteq> None
        \<and> drop_shadows_cache (snd (add_drop_shadow P (snd (add_drop_shadow P st a1)) a2))
             (shadow_key P a1)
           = drop_shadows_cache (snd (add_drop_shadow P st a1)) (shadow_key P a1)"
  proof
    assume h: "shadow_key P a2 \<noteq> shadow_key P a1 \<and> drop_shadows_cache st (shadow_key P a2) = None"
    then have ne: "shadow_key P a1 \<noteq> shadow_key P a2" by auto
    from h add_drop_shadow_second_miss [of P a2 a1 st] ne
    show "blur_calls (snd (add_drop_shadow P (snd (add_drop_shadow P st a1)) a2))
          = blur_calls (snd (add_drop_shadow P st a1)) + nat (iterations a2)
        \<and> drop_shadows_cache (snd (add_drop_shadow P (snd (add_drop_shadow P st a1)) a2))
             (shadow_key P a2) \<noteq> None
        \<and> drop_shadows_cache (snd (add_drop_shadow P (snd (add_drop_shadow P st a1)) a2))
             (shadow_key P a1)
           = drop_shadows_cache (snd (add_drop_shadow P st a1)) (shadow_key P a1)"
      by simp
  qed
  from A B have AB: "canvas = ?canvas \<longrightarrow>
        (drop_shadows_cache st (shadow_key P a1) = None \<longrightarrow>
           add_drop_shadow P st a1 =
             (paste_image P canvas (image a1)
                (border_size a1 - min (fst (offset a1)) 0, border_size a1 - min (snd (offset a1)) 0),
              st\<lparr> drop_shadows_cache := (drop_shadows_cache st)(shadow_key P a1 \<mapsto> canvas),
                  blur_calls := blur_calls st + nat (iterations a1) \<rparr>))
        \<and> (shadow_key P a2 = shadow_key P a1 \<longrightarrow>
             add_drop_shadow P (add_drop_shadows P (snd (add_drop_shadow P st a1)) between) a2
               = (paste_image P
                    (case drop_shadows_cache st (shadow_key P a1) of
                       None \<Rightarrow> canvas | Some cached \<Rightarrow> cached)
                    (image a2)
                    (border_size a2 - min (fst (offset a2)) 0,
                     border_size a2 - min (snd (offset a2)) 0),
                  add_drop_shadows P (snd (add_drop_shadow P st a1)) between))"
    by blast
  from shadow_key_formula [of P a1] AB [unfolded blurred_shadow_formula] C D
  show ?thesis by (intro conjI)
qed

lemma thumb_key:
  "shadow_key term_pil (thumb_args (x, y))
     = (100 + \<bar>x\<bar> + 4, 50 + \<bar>y\<bar> + 4, 3, 2, (x, y), (0, 0, 0, 255))"
  by (simp add: shadow_key_def thumb_args_def term_pil_def Let_def)

lemma thumb_iterations: "iterations (thumb_args off) = 3"
  by (simp add: thumb_args_def)

lemma thumb_fields:
  "image (thumb_args off) = Source 100 50" "border_size (thumb_args off) = 2"
  "offset (thumb_args off) = off" "shadow_color (thumb_args off) = (0, 0, 0, 255)"
  "img_size term_pil (Source 100 50) = (100, 50)"
  by (simp_all add: thumb_args_def term_pil_def)

lemma thumb_canvas_formula:
  "thumb_canvas =
     ((blur term_pil) ^^ nat (iterations (thumb_args (2, 2))))
       (paste_color term_pil
          (img_new term_pil
             (fst (img_size term_pil (image (thumb_args (2, 2)))) + \<bar>fst (offset (thumb_args (2, 2)))\<bar>
                + 2 * border_size (thumb_args (2, 2)),
              snd (img_size term_pil (image (thumb_args (2, 2)))) + \<bar>snd (offset (thumb_args (2, 2)))\<bar>
                + 2 * border_size (thumb_args (2, 2)))
             (255, 255, 255, 0))
          (shadow_color (thumb_args (2, 2)))
          (border_size (thumb_args (2, 2)) + max (fst (offset (thumb_args (2, 2)))) 0,
           border_size (thumb_args (2, 2)) + max (snd (offset (thumb_args (2, 2)))) 0,
           border_size (thumb_args (2, 2)) + max (fst (offset (thumb_args (2, 2)))) 0
             + fst (img_size term_pil (image (thumb_args (2, 2)))),
           border_size (thumb_args (2, 2)) + max (snd (offset (thumb_args (2, 2)))) 0
             + snd (img_size term_pil (image (thumb_args (2, 2))))))"
  by (simp add: thumb_fields thumb_iterations thumb_canvas_def numeral_3_eq_3)
     (simp add: term_pil_def)

theorem add_drop_shadow_cache_reuse_witness:
  "shadow_key term_pil (thumb_args (2, 2)) = (106, 56, 3, 2, (2, 2), (0, 0, 0, 255))
   \<and> shadow_key term_pil (thumb_args (3, 2)) = (107, 56, 3, 2, (3, 2), (0, 0, 0, 255))
   \<and> drop_shadows_cache empty_shadows (shadow_key term_pil (thumb_args (2, 2))) = None
   \<and> add_drop_shadow term_pil empty_shadows (thumb_args (2, 2))
       = (Composite thumb_canvas (Source 100 50) (2, 2),
          \<lparr> drop_shadows_cache = [(106, 56, 3, 2, (2, 2), (0, 0, 0, 255)) \<mapsto> thumb_canvas],
            blur_calls = 3 \<rparr>)
   \<and> blur_calls (snd (add_drop_shadow term_pil
         (snd (add_drop_shadow term_pil empty_shadows (thumb_args (2, 2)))) (thumb_args (3, 2)))) = 6
   \<and> add_drop_shadow term_pil
        (add_drop_shadows term_pil (snd (add_drop_shadow term_pil empty_shadows (thumb_args (2, 2))))
           [thumb_args (3, 2)])
        (thumb_args (2, 2))
       = (Composite thumb_canvas (Source 100 50) (2, 2),
          add_drop_shadows term_pil (snd (add_drop_shadow term_pil empty_shadows (thumb_args (2, 2))))
            [thumb_args (3, 2)])
   \<and> blur_calls (add_drop_shadows term_pil
        (snd (add_drop_shadow term_pil empty_shadows (thumb_args (2, 2)))) [thumb_args (3, 2)]) = 6"
proof -
  let ?a = "thumb_args (2, 2)"
  let ?b = "thumb_args (3, 2)"
  let ?ka = "(106, 56, 3, 2, (2, 2), (0, 0, 0, 255)) :: shadow_key"
  let ?kb = "(107, 56, 3, 2, (3, 2), (0, 0, 0, 255)) :: shadow_key"
  have ka: "shadow_key term_pil ?a = ?ka" and kb: "shadow_key term_pil ?b = ?kb"
    by (simp_all add: thumb_key)
  have miss: "drop_shadows_cache empty_shadows (shadow_key term_pil ?a) = None"
    "drop_shadows_cache empty_shadows (shadow_key term_pil ?b) = None"
    by (simp_all add: empty_shadows_def)
  note t = add_drop_shadow_cache_reuse [of term_pil ?a thumb_canvas empty_shadows ?a "[?b]" ?kb]
  from t thumb_canvas_formula miss(1)
  have first: "add_drop_shadow term_pil empty_shadows ?a =
             (paste_image term_pil thumb_canvas (image ?a)
                (border_size ?a - min (fst (offset ?a)) 0, border_size ?a - min (snd (offset ?a)) 0),
              empty_shadows\<lparr> drop_shadows_cache :=
                             (drop_shadows_cache empty_shadows)(shadow_key term_pil ?a \<mapsto> thumb_canvas),
                           blur_calls := blur_calls empty_shadows + nat (iterations ?a) \<rparr>)"
    by blast
  then have first': "add_drop_shadow term_pil empty_shadows ?a
       = (Composite thumb_canvas (Source 100 50) (2, 2),
          \<lparr> drop_shadows_cache = [?ka \<mapsto> thumb_canvas], blur_calls = 3 \<rparr>)"
    by (simp add: ka thumb_fields thumb_iterations empty_shadows_def)
       (simp add: term_pil_def)
  have c: "(case drop_shadows_cache empty_shadows (shadow_key term_pil ?a) of
               None \<Rightarrow> thumb_canvas | Some cached \<Rightarrow> cached) = thumb_canvas"
    using miss(1) by simp
  from t thumb_canvas_formula
  have "add_drop_shadow term_pil
        (add_drop_shadows term_pil (snd (add_drop_shadow term_pil empty_shadows ?a)) [?b]) ?a
       = (paste_image term_pil
            (case drop_shadows_cache empty_shadows (shadow_key term_pil ?a) of
               None \<Rightarrow> thumb_canvas | Some cached \<Rightarrow> cached)
            (image ?a)
            (border_size ?a - min (fst (offset ?a)) 0, border_size ?a - min (snd (offset ?a)) 0),
          add_drop_shadows term_pil (snd (add_drop_shadow term_pil empty_shadows ?a)) [?b])"
    by blast
  then have again: "add_drop_shadow term_pil
        (add_drop_shadows term_pil (snd (add_drop_shadow term_pil empty_shadows ?a)) [?b]) ?a
       = (paste_image term_pil thumb_canvas (image ?a)
            (border_size ?a - min (fst (offset ?a)) 0, border_size ?a - min (snd (offset ?a)) 0),
          add_drop_shadows term_pil (snd (add_drop_shadow term_pil empty_shadows ?a)) [?b])"
    by (simp only: c)
  then have again': "add_drop_shadow term_pil
        (add_drop_shadows term_pil (snd (add_drop_shadow term_pil empty_shadows ?a)) [?b]) ?a
       = (Composite thumb_canvas (Source 100 50) (2, 2),
          add_drop_shadows term_pil (snd (add_drop_shadow term_pil empty_shadows ?a)) [?b])"
    by (simp add: thumb_fields) (simp add: term_pil_def)
  have ne: "shadow_key term_pil ?b \<noteq> shadow_key term_pil ?a" by (simp add: ka kb)
  from add_drop_shadow_cache_reuse [of term_pil ?a thumb_canvas empty_shadows ?b "[]" ?kb] ne miss(2)
  have "blur_calls (snd (add_drop_shadow term_pil (snd (add_drop_shadow term_pil empty_shadows ?a)) ?b))
          = blur_calls (snd (add_drop_shadow term_pil empty_shadows ?a)) + nat (iterations ?b)"
    by blast
  with first' have second: "blur_calls (snd (add_drop_shadow term_pil
         (snd (add_drop_shadow term_pil empty_shadows ?a)) ?b)) = 6"
    by (simp add: thumb_iterations)
  then have between: "blur_calls (add_drop_shadows term_pil
        (snd (add_drop_shadow term_pil empty_shadows ?a)) [?b]) = 6"
    by simp
  from ka kb miss(1) first' second again' between show ?thesis by blast
qed

section \<open>Properties of the column width\<close>

lemma best_width_cases:
  "get_best_column_width label_width lengths =
     (let m = (if lengths = [] then 1 else Max (set lengths)) in
      if m < 40 \<and> 40 < label_width then label_width + 20 else max 40 (min 400 m))"
  by (simp add: get_best_column_width_def MIN_WIDTH_def MAX_WIDTH_def Let_def max_def min_def
      del: Max_less_iff Max_gr_iff Max_le_iff Max_ge_iff)

text \<open>
  C8. The best column width is the largest measured width (1 when nothing was measured),
  brought down to \<open>MAX_WIDTH = 400\<close> and up to \<open>MIN_WIDTH = 40\<close>, except that when the
  largest measured width is below 40 and 40 is below the label's width the result is the
  label's width plus 20. Measured widths 20, 500, 45 give 400; measured widths that are
  all 10 with a label width of 60 give 80.
\<close>

theorem get_best_column_width_clamp:
  "get_best_column_width label_width lengths =
     (let m = (if lengths = [] then 1 else Max (set lengths)) in
      if m < 40 \<and> 40 < label_width then label_width + 20 else max 40 (min 400 m))
   \<and> MIN_WIDTH = 40 \<and> MAX_WIDTH = 400
   \<and> get_best_column_width label_width [20, 500, 45] = 400
   \<and> get_best_column_width 60 (replicate (Suc n) 10) = 80"
  using best_width_cases [of label_width lengths]
  by (simp add: get_best_column_width_def MIN_WIDTH_def MAX_WIDTH_def)

section \<open>Properties of \<open>refresh\<close>\<close>

lemma assign_roots_step:
  "idx < length (data row) \<Longrightarrow>
   assign_roots idx i (row # rest) mp =
     (let r = assign_roots idx (Suc i) rest (mp(dict_key (data row ! idx) \<mapsto> [i]))
      in (fst r, set_path (Some [i]) row # fst (snd r), snd (snd r)))"
  by (simp add: Let_def case_prod_unfold)

lemma assign_roots_ok:
  "\<forall>row \<in> set rs. idx < length (data row) \<Longrightarrow> fst (assign_roots idx i rs mp) = Inr ()"
  by (induction rs arbitrary: i mp) (simp_all add: assign_roots_step Let_def del: assign_roots.simps(2))

lemma assign_roots_rows:
  "\<forall>row \<in> set rs. idx < length (data row) \<Longrightarrow>
   fst (snd (assign_roots idx i rs mp)) = map (\<lambda>(k, row). set_path (Some [k]) row) (zip [i ..< i + length rs] rs)"
proof (induction rs arbitrary: i mp)
  case Nil
  then show ?case by simp
next
  case (Cons row rest)
  have "[i ..< i + length (row # rest)] = i # [Suc i ..< Suc i + length rest]"
    by (simp add: upt_rec)
  with Cons show ?case by (simp add: assign_roots_step Let_def del: assign_roots.simps(2))
qed

lemma assign_roots_other:
  "\<forall>row \<in> set rs. idx < length (data row) \<Longrightarrow> k \<notin> set (row_keys idx rs)
   \<Longrightarrow> snd (snd (assign_roots idx i rs mp)) k = mp k"
  by (induction rs arbitrary: i mp)
    (simp_all add: assign_roots_step Let_def row_keys_def del: assign_roots.simps(2))

lemma assign_roots_mapper:
  "\<forall>row \<in> set rs. idx < length (data row) \<Longrightarrow> k < length rs \<Longrightarrow>
   \<exists>j. k \<le> j \<and> j < length rs \<and> row_keys idx rs ! j = row_keys idx rs ! k
       \<and> snd (snd (assign_roots idx i rs mp)) (row_keys idx rs ! k) = Some [i + j]
       \<and> row_keys idx rs ! k \<notin> set (drop (Suc j) (row_keys idx rs))"
proof (induction rs arbitrary: i mp k)
  case Nil
  then show ?case by simp
next
  case (Cons row rest)
  let ?mp = "mp(dict_key (data row ! idx) \<mapsto> [i])"
  have rest: "\<forall>row \<in> set rest. idx < length (data row)" using Cons.prems by simp
  have step: "snd (snd (assign_roots idx i (row # rest) mp)) = snd (snd (assign_roots idx (Suc i) rest ?mp))"
    using Cons.prems by (simp add: assign_roots_step Let_def del: assign_roots.simps(2))
  show ?case
  proof (cases k)
    case 0
    show ?thesis
    proof (cases "dict_key (data row ! idx) \<in> set (row_keys idx rest)")
      case True
      then obtain k' where k': "k' < length rest" "row_keys idx rest ! k' = dict_key (data row ! idx)"
        by (auto simp: in_set_conv_nth row_keys_def)
      from Cons.IH [OF rest k'(1), of "Suc i" ?mp] obtain j where
        j: "k' \<le> j" "j < length rest" "row_keys idx rest ! j = row_keys idx rest ! k'"
           "snd (snd (assign_roots idx (Suc i) rest ?mp)) (row_keys idx rest ! k') = Some [Suc i + j]"
           "row_keys idx rest ! k' \<notin> set (drop (Suc j) (row_keys idx rest))"
        by blast
      show ?thesis
        apply (rule exI [of _ "Suc j"])
        using j k' 0 step by (simp add: row_keys_def)
    next
      case False
      from assign_roots_other [OF rest False, of "Suc i" ?mp]
      show ?thesis
        apply (intro exI [of _ 0])
        using 0 step False by (simp add: row_keys_def)
    qed
  next
    case (Suc k')
    then have k': "k' < length rest" using Cons.prems by simp
    from Cons.IH [OF rest k', of "Suc i" ?mp] obtain j where
      j: "k' \<le> j" "j < length rest" "row_keys idx rest ! j = row_keys idx rest ! k'"
         "snd (snd (assign_roots idx (Suc i) rest ?mp)) (row_keys idx rest ! k') = Some [Suc i + j]"
         "row_keys idx rest ! k' \<notin> set (drop (Suc j) (row_keys idx rest))"
      by blast
    show ?thesis
      apply (rule exI [of _ "Suc j"])
      using j Suc step by (simp add: row_keys_def)
  qed
qed

lemma refresh_no_id:
  assumes "ds_id_column_idx ds (ds_calls m @ [Load ((active_params m)\<lparr> page := None, parent_id := None \<rparr>)]) = None"
  shows "refresh ds m =
     (let ps = (active_params m)\<lparr> page := None, parent_id := None \<rparr>;
          calls = ds_calls m @ [Load ps] in
      (Inr (), m\<lparr> active_params := ps,
                  row_id_mapper := Map.empty,
                  rows := Some (set_path (Some []) (ds_load ds calls)),
                  id_column_idx := None,
                  parent_column_idx := ds_parent_column_idx ds calls,
                  flat_column_idx := ds_flat_column_idx ds calls,
                  total_recs := Some (ds_total_recs ds calls),
                  ds_calls := calls,
                  signals := signals m @ [DataLoaded (ds_total_recs ds calls)] \<rparr>))"
  using assms by (simp add: refresh_def Let_def)

lemma refresh_with_id:
  assumes "ds_id_column_idx ds (ds_calls m @ [Load ((active_params m)\<lparr> page := None, parent_id := None \<rparr>)]) = Some idx"
    and "\<forall>row \<in> set (children (ds_load ds (ds_calls m @ [Load ((active_params m)\<lparr> page := None, parent_id := None \<rparr>)]))). idx < length (data row)"
  shows "refresh ds m =
     (let ps = (active_params m)\<lparr> page := None, parent_id := None \<rparr>;
          calls = ds_calls m @ [Load ps];
          loaded = ds_load ds calls;
          r = assign_roots idx 0 (children loaded) Map.empty in
      (Inr (), m\<lparr> active_params := ps,
                  row_id_mapper := snd (snd r),
                  rows := Some (Node (data loaded) (Some []) (fst (snd r))),
                  id_column_idx := Some idx,
                  parent_column_idx := ds_parent_column_idx ds calls,
                  flat_column_idx := ds_flat_column_idx ds calls,
                  total_recs := Some (ds_total_recs ds calls),
                  ds_calls := calls,
                  signals := signals m @ [DataLoaded (ds_total_recs ds calls)] \<rparr>))"
  using assms assign_roots_ok [OF assms(2), of 0 Map.empty]
  by (simp add: refresh_def Let_def case_prod_unfold set_path_def)

text \<open>
  C1, as stated, fails for a data source without an id column: the loop that assigns the
  paths is under the test of the id column, so the root rows keep the path the data source
  delivered them with.
\<close>

theorem refresh_no_id_column_counterexample:
  "fst (refresh (source_of (\<lambda>_. two_roots) None None (\<lambda>_ _. True)) (init_model selected_columns)) = Inr ()
   \<and> (\<exists>root. rows (snd (refresh (source_of (\<lambda>_. two_roots) None None (\<lambda>_ _. True))
                         (init_model selected_columns))) = Some root
         \<and> path (children root ! 1) \<noteq> Some [1])"
  by (simp add: refresh_def source_of_def init_model_def two_roots_def set_path_def Let_def)

text \<open>
  C1, amended. After a refresh from a data source that defines an id column, with every
  root row long enough to hold it: the root container has the path \<open>()\<close>, root row \<open>i\<close>
  has the path \<open>(i,)\<close> and the data as loaded, its id is a key of the row-id index and
  the index holds under it the last root row with this id (the row itself when the ids
  are distinct), the stored total is the one the data source reports after this load, and
  a data-loaded signal with this total is emitted. After a refresh from a data source
  without an id column the root rows are as the data source delivered them and the index is
  empty; the total and the signal are as before.
\<close>

theorem refresh_consistency:
  assumes calls: "calls = ds_calls m @ [Load ((active_params m)\<lparr> page := None, parent_id := None \<rparr>)]"
    and loaded: "loaded = children (ds_load ds calls)"
    and m': "m' = snd (refresh ds m)"
  shows "(ds_id_column_idx ds calls = Some idx \<and> (\<forall>row \<in> set loaded. idx < length (data row)) \<longrightarrow>
            fst (refresh ds m) = Inr ()
            \<and> (\<exists>root. rows m' = Some root \<and> path root = Some []
                  \<and> length (children root) = length loaded
                  \<and> (\<forall>i < length loaded.
                        path (children root ! i) = Some [i]
                        \<and> data (children root ! i) = data (loaded ! i)
                        \<and> (\<exists>j. i \<le> j \<and> j < length loaded
                              \<and> row_keys idx loaded ! j = row_keys idx loaded ! i
                              \<and> row_id_mapper m' (dict_key (data (loaded ! i) ! idx)) = Some [j]
                              \<and> (distinct (row_keys idx loaded) \<longrightarrow> j = i))))
            \<and> total_recs m' = Some (ds_total_recs ds calls)
            \<and> signals m' = signals m @ [DataLoaded (ds_total_recs ds calls)])
         \<and> (ds_id_column_idx ds calls = None \<longrightarrow>
            fst (refresh ds m) = Inr ()
            \<and> rows m' = Some (set_path (Some []) (ds_load ds calls))
            \<and> row_id_mapper m' = Map.empty
            \<and> total_recs m' = Some (ds_total_recs ds calls)
            \<and> signals m' = signals m @ [DataLoaded (ds_total_recs ds calls)])"
proof -
  have B: "ds_id_column_idx ds calls = None \<longrightarrow>
            fst (refresh ds m) = Inr ()
            \<and> rows m' = Some (set_path (Some []) (ds_load ds calls))
            \<and> row_id_mapper m' = Map.empty
            \<and> total_recs m' = Some (ds_total_recs ds calls)
            \<and> signals m' = signals m @ [DataLoaded (ds_total_recs ds calls)]"
  proof
  assume "ds_id_column_idx ds calls = None"
  from refresh_no_id [of ds m] this calls m'
  show "fst (refresh ds m) = Inr ()
        \<and> rows m' = Some (set_path (Some []) (ds_load ds calls))
        \<and> row_id_mapper m' = Map.empty
        \<and> total_recs m' = Some (ds_total_recs ds calls)
        \<and> signals m' = signals m @ [DataLoaded (ds_total_recs ds calls)]"
    by (simp add: Let_def)
  qed
  have A: "ds_id_column_idx ds calls = Some idx \<and> (\<forall>row \<in> set loaded. idx < length (data row)) \<longrightarrow>
            fst (refresh ds m) = Inr ()
            \<and> (\<exists>root. rows m' = Some root \<and> path root = Some []
                  \<and> length (children root) = length loaded
                  \<and> (\<forall>i < length loaded.
                        path (children root ! i) = Some [i]
                        \<and> data (children root ! i) = data (loaded ! i)
                        \<and> (\<exists>j. i \<le> j \<and> j < length loaded
                              \<and> row_keys idx loaded ! j = row_keys idx loaded ! i
                              \<and> row_id_mapper m' (dict_key (data (loaded ! i) ! idx)) = Some [j]
                              \<and> (distinct (row_keys idx loaded) \<longrightarrow> j = i))))
            \<and> total_recs m' = Some (ds_total_recs ds calls)
            \<and> signals m' = signals m @ [DataLoaded (ds_total_recs ds calls)]"
  proof
  assume a: "ds_id_column_idx ds calls = Some idx \<and> (\<forall>row \<in> set loaded. idx < length (data row))"
  then have ok: "\<forall>row \<in> set loaded. idx < length (data row)" by simp
  let ?r = "assign_roots idx 0 loaded Map.empty"
  have eq: "refresh ds m =
      (Inr (), m\<lparr> active_params := (active_params m)\<lparr> page := None, parent_id := None \<rparr>,
                  row_id_mapper := snd (snd ?r),
                  rows := Some (Node (data (ds_load ds calls)) (Some []) (fst (snd ?r))),
                  id_column_idx := Some idx,
                  parent_column_idx := ds_parent_column_idx ds calls,
                  flat_column_idx := ds_flat_column_idx ds calls,
                  total_recs := Some (ds_total_recs ds calls),
                  ds_calls := calls,
                  signals := signals m @ [DataLoaded (ds_total_recs ds calls)] \<rparr>)"
    using refresh_with_id [of ds m idx] a calls loaded by (simp add: Let_def)
  have roots: "fst (snd ?r) = map (\<lambda>(k, row). set_path (Some [k]) row) (zip [0 ..< 0 + length loaded] loaded)"
    by (rule assign_roots_rows [OF ok])
  have len: "length (fst (snd ?r)) = length loaded" by (simp add: roots)
  have nth: "\<And>i. i < length loaded \<Longrightarrow> fst (snd ?r) ! i = set_path (Some [i]) (loaded ! i)"
    by (simp add: roots)
  have mapper: "\<And>i. i < length loaded \<Longrightarrow>
      \<exists>j. i \<le> j \<and> j < length loaded \<and> row_keys idx loaded ! j = row_keys idx loaded ! i
          \<and> snd (snd ?r) (dict_key (data (loaded ! i) ! idx)) = Some [j]
          \<and> (distinct (row_keys idx loaded) \<longrightarrow> j = i)"
  proof -
    fix i assume i: "i < length loaded"
    from assign_roots_mapper [OF ok i, of 0 Map.empty] obtain j where
      j: "i \<le> j" "j < length loaded" "row_keys idx loaded ! j = row_keys idx loaded ! i"
         "snd (snd ?r) (row_keys idx loaded ! i) = Some [0 + j]"
      by blast
    have key: "row_keys idx loaded ! i = dict_key (data (loaded ! i) ! idx)"
      using i by (simp add: row_keys_def)
    have "distinct (row_keys idx loaded) \<longrightarrow> j = i"
      using j i by (metis length_map nth_eq_iff_index_eq order_le_less_trans row_keys_def)
    with j key show "\<exists>j. i \<le> j \<and> j < length loaded \<and> row_keys idx loaded ! j = row_keys idx loaded ! i
          \<and> snd (snd ?r) (dict_key (data (loaded ! i) ! idx)) = Some [j]
          \<and> (distinct (row_keys idx loaded) \<longrightarrow> j = i)"
      by auto
  qed
  show "fst (refresh ds m) = Inr ()
        \<and> (\<exists>root. rows m' = Some root \<and> path root = Some []
              \<and> length (children root) = length loaded
              \<and> (\<forall>i < length loaded.
                    path (children root ! i) = Some [i]
                    \<and> data (children root ! i) = data (loaded ! i)
                    \<and> (\<exists>j. i \<le> j \<and> j < length loaded
                          \<and> row_keys idx loaded ! j = row_keys idx loaded ! i
                          \<and> row_id_mapper m' (dict_key (data (loaded ! i) ! idx)) = Some [j]
                          \<and> (distinct (row_keys idx loaded) \<longrightarrow> j = i))))
        \<and> total_recs m' = Some (ds_total_recs ds calls)
        \<and> signals m' = signals m @ [DataLoaded (ds_total_recs ds calls)]"
    using mapper by (simp add: eq m' len nth set_path_def)
  qed
  from A B show ?thesis by (rule conjI)
qed

lemma init_calls:
  "ds_calls (init_model cols) @ [Load ((active_params (init_model cols))\<lparr> page := None, parent_id := None \<rparr>)]
     = [Load init_params]"
  by (simp add: init_model_def init_params_def)

theorem refresh_consistency_witness:
  "ds_id_column_idx id_source [Load init_params] = Some 1
   \<and> list_all (\<lambda>row. 1 < length (data row)) (children (ds_load id_source [Load init_params]))
   \<and> fst (refresh id_source (init_model selected_columns)) = Inr ()
   \<and> (\<exists>root. rows (snd (refresh id_source (init_model selected_columns))) = Some root
         \<and> path (children root ! 0) = Some [0] \<and> path (children root ! 1) = Some [1])
   \<and> row_id_mapper (snd (refresh id_source (init_model selected_columns))) (VInt 9) = Some [1]
   \<and> total_recs (snd (refresh id_source (init_model selected_columns))) = Some 2
   \<and> signals (snd (refresh id_source (init_model selected_columns))) = [DataLoaded 2]
   \<and> ds_id_column_idx no_id_source [Load init_params] = None
   \<and> row_id_mapper (snd (refresh no_id_source (init_model selected_columns))) = Map.empty
   \<and> signals (snd (refresh no_id_source (init_model selected_columns))) = [DataLoaded 2]"
proof -
  let ?m = "init_model selected_columns"
  have idx: "ds_id_column_idx id_source [Load init_params] = Some 1"
    by (simp add: id_source_def source_of_def)
  have ld: "children (ds_load id_source [Load init_params])
              = [Node [VBool False, VInt 7] None [], Node [VBool False, VInt 9] None []]"
    by (simp add: id_source_def source_of_def two_roots_def)
  have tot: "ds_total_recs id_source [Load init_params] = 2"
    by (simp add: id_source_def source_of_def two_roots_def)
  have all: "\<forall>row \<in> set (children (ds_load id_source [Load init_params])). 1 < length (data row)"
    by (simp add: ld)
  have sig: "signals ?m = []" by (simp add: init_model_def)
  note t = refresh_consistency [OF init_calls [of selected_columns, symmetric] refl refl,
      where ds = id_source and idx = 1]
  from t idx all have
    a: "fst (refresh id_source ?m) = Inr ()"
    and b: "\<exists>root. rows (snd (refresh id_source ?m)) = Some root \<and> path root = Some []
             \<and> length (children root) = length (children (ds_load id_source [Load init_params]))
             \<and> (\<forall>i < length (children (ds_load id_source [Load init_params])).
                   path (children root ! i) = Some [i]
                   \<and> data (children root ! i) = data (children (ds_load id_source [Load init_params]) ! i)
                   \<and> (\<exists>j. i \<le> j \<and> j < length (children (ds_load id_source [Load init_params]))
                         \<and> row_keys 1 (children (ds_load id_source [Load init_params])) ! j
                             = row_keys 1 (children (ds_load id_source [Load init_params])) ! i
                         \<and> row_id_mapper (snd (refresh id_source ?m))
                              (dict_key (data (children (ds_load id_source [Load init_params]) ! i) ! 1)) = Some [j]
                         \<and> (distinct (row_keys 1 (children (ds_load id_source [Load init_params]))) \<longrightarrow> j = i)))"
    and c: "total_recs (snd (refresh id_source ?m)) = Some 2"
    and d: "signals (snd (refresh id_source ?m)) = [DataLoaded 2]"
    by (simp_all add: tot sig)
  let ?L = "children (ds_load id_source [Load init_params])"
  from b obtain root where
    root: "rows (snd (refresh id_source ?m)) = Some root"
    and each: "\<forall>i < length ?L.
                   path (children root ! i) = Some [i]
                   \<and> data (children root ! i) = data (?L ! i)
                   \<and> (\<exists>j. i \<le> j \<and> j < length ?L
                         \<and> row_keys 1 ?L ! j = row_keys 1 ?L ! i
                         \<and> row_id_mapper (snd (refresh id_source ?m)) (dict_key (data (?L ! i) ! 1)) = Some [j]
                         \<and> (distinct (row_keys 1 ?L) \<longrightarrow> j = i))"
    by blast
  have dist: "distinct (row_keys 1 ?L)"
    by (simp add: ld row_keys_def dict_key_def)
  have l0: "0 < length ?L" and l1: "1 < length ?L" by (simp_all add: ld)
  from each l0 have p0: "path (children root ! 0) = Some [0]" by blast
  from each l1 have p1: "path (children root ! 1) = Some [1]" by blast
  from each l1 dist have "row_id_mapper (snd (refresh id_source ?m)) (dict_key (data (?L ! 1) ! 1)) = Some [1]"
    by blast
  then have mp: "row_id_mapper (snd (refresh id_source ?m)) (VInt 9) = Some [1]"
    by (simp add: ld dict_key_def)
  have idx0: "ds_id_column_idx no_id_source [Load init_params] = None"
    by (simp add: no_id_source_def source_of_def)
  have tot0: "ds_total_recs no_id_source [Load init_params] = 2"
    by (simp add: no_id_source_def source_of_def two_roots_def)
  note t0 = refresh_consistency [OF init_calls [of selected_columns, symmetric] refl refl,
      where ds = no_id_source and idx = 0]
  from t0 idx0 have
    e: "row_id_mapper (snd (refresh no_id_source ?m)) = Map.empty"
    and f: "signals (snd (refresh no_id_source ?m)) = [DataLoaded 2]"
    by (simp_all add: tot0 sig)
  show ?thesis using idx ld a root p0 p1 mp c d idx0 e f by simp
qed

section \<open>Properties of \<open>add_rows\<close>\<close>

lemma tree_ext_refl: "tree_ext r r"
  by (simp add: tree_ext_def)

lemma tree_ext_trans:
  assumes "tree_ext a b" and "tree_ext b c"
  shows "tree_ext a c"
  unfolding tree_ext_def
proof (intro allI impI)
  fix q n assume "get_node a q = Some n"
  with assms(1) obtain n1 where n1: "get_node b q = Some n1" "data n1 = data n" "path n1 = path n"
      "length (children n) \<le> length (children n1)"
    unfolding tree_ext_def by blast
  with assms(2) obtain n2 where "get_node c q = Some n2" "data n2 = data n1" "path n2 = path n1"
      "length (children n1) \<le> length (children n2)"
    unfolding tree_ext_def by blast
  with n1 show "\<exists>n'. get_node c q = Some n' \<and> data n' = data n \<and> path n' = path n
              \<and> length (children n) \<le> length (children n')"
    by simp
qed

lemma get_node_update_at:
  "get_node root pos = Some p \<Longrightarrow> get_node (update_node f pos root) pos = Some (f p)"
  by (induction pos arbitrary: root) (simp_all split: if_splits)

lemma get_node_append_child:
  "get_node root q = Some n \<Longrightarrow>
   \<exists>n'. get_node (update_node (append_child c) pos root) q = Some n'
        \<and> data n' = data n \<and> path n' = path n \<and> length (children n) \<le> length (children n')"
proof (induction q arbitrary: root pos)
  case Nil
  then show ?case by (cases pos) (simp_all add: append_child_def)
next
  case (Cons k qs)
  then have k: "k < length (children root)" and n: "get_node (children root ! k) qs = Some n"
    by (simp_all split: if_splits)
  show ?case
  proof (cases pos)
    case Nil
    with k n show ?thesis by (simp add: append_child_def nth_append)
  next
    case (Cons i "is")
    show ?thesis
    proof (cases "i < length (children root)")
      case True
      show ?thesis
      proof (cases "k = i")
        case True
        from Cons.IH [OF n, of "is"] \<open>i < length (children root)\<close> True Cons k
        show ?thesis by simp
      next
        case False
        with \<open>i < length (children root)\<close> Cons k n show ?thesis by simp
      qed
    next
      case False
      with Cons k n show ?thesis by simp
    qed
  qed
qed

lemma tree_ext_append_child: "tree_ext root (update_node (append_child c) pos root)"
  unfolding tree_ext_def
proof (intro allI impI)
  fix q n assume "get_node root q = Some n"
  from get_node_append_child [OF this]
  show "\<exists>n'. get_node (update_node (append_child c) pos root) q = Some n' \<and> data n' = data n
           \<and> path n' = path n \<and> length (children n) \<le> length (children n')" .
qed

lemma extends_refl: "extends m m"
  by (simp add: extends_def tree_ext_refl)

lemma extends_trans:
  assumes "extends a b" and "extends b c"
  shows "extends a c"
  using assms unfolding extends_def
  by (metis tree_ext_trans)

lemma bind_outcome_Some:
  "bind_outcome r f = Some (x, m') \<Longrightarrow>
     (\<exists>e. r = Some (Inl e, m') \<and> x = Inl e) \<or> (\<exists>v m1. r = Some (Inr v, m1) \<and> f v m1 = Some (x, m'))"
  by (auto simp: bind_outcome_def split: option.splits sum.splits prod.splits)

lemma ensure_extends:
  assumes "growing nested" and "ensure_children_is_loaded nested ds pos m = Some (r, m')"
  shows "extends m m'"
proof (cases "\<exists>root row. rows m = Some root \<and> get_node root pos = Some row \<and> \<not> is_children_loaded ds False row")
  case True
  with assms(2) have "bind_outcome (nested (Some pos) m) (\<lambda>_ m'. Some (Inr (), m')) = Some (r, m')"
    by (auto simp: ensure_children_is_loaded_def)
  from bind_outcome_Some [OF this] obtain r' where "nested (Some pos) m = Some (r', m')"
    by auto
  with assms(1) show ?thesis by (auto simp: growing_def)
next
  case False
  with assms(2) have "m' = m"
    by (auto simp: ensure_children_is_loaded_def split: option.splits if_splits)
  then show ?thesis by (simp add: extends_refl)
qed

lemma get_row_by_path_extends:
  assumes "growing nested" and "get_row_by_path nested ds p m = Some (r, m')"
  shows "extends m m'"
proof (cases "\<exists>root row. p \<noteq> [] \<and> rows m = Some root \<and> get_node root p = Some row")
  case True
  with assms(2) have "ensure_children_is_loaded nested ds p m = Some (r, m')"
    by (auto simp: get_row_by_path_def)
  from ensure_extends [OF assms(1) this] show ?thesis .
next
  case False
  with assms(2) have "m' = m"
    by (auto simp: get_row_by_path_def split: option.splits if_splits)
  then show ?thesis by (simp add: extends_refl)
qed

lemma get_iter_extends:
  assumes "growing nested" and "get_iter nested ds p m = Some (r, m')"
  shows "extends m m'"
proof -
  from assms(2) obtain r' where "get_row_by_path nested ds p m = Some (r', m')"
    by (auto simp: get_iter_def on_get_iter_def bind_outcome_def
        split: option.splits if_splits sum.splits prod.splits)
  from get_row_by_path_extends [OF assms(1) this] show ?thesis .
qed

lemma add_rows_loop_raises:
  assumes "\<forall>idx. \<not> loop_ready idx pos row m"
  shows "\<exists>e. add_rows_loop nested ds t pos off i (row # rest) m = Some (Inl e, m)"
  using assms
  by (auto simp: loop_ready_def Let_def split: option.splits)

lemma add_rows_loop_step:
  assumes "rows m = Some root" and "get_node root pos = Some parent_row"
    and "path parent_row = Some parent_path"
    and "id_column_idx m = Some idx" and "idx < length (data row)"
  shows "add_rows_loop nested ds t pos off i (row # rest) m =
     (let row_path = parent_path @ [off + i];
          m1 = m\<lparr> row_id_mapper := (row_id_mapper m)(dict_key (data row ! idx)
                                        \<mapsto> pos @ [length (children parent_row)]),
                  rows := Some (update_node (append_child (set_path (Some row_path) row)) pos root) \<rparr>
      in if t then add_rows_loop nested ds t pos off (Suc i) rest m1
         else bind_outcome (get_iter nested ds row_path m1)
                (\<lambda>_ m2. add_rows_loop nested ds t pos off (Suc i) rest
                           (m2\<lparr> signals := signals m2 @ [RowInserted row_path] \<rparr>)))"
  using assms by (simp add: Let_def)

lemma extends_child_count:
  assumes "extends m m'" and "child_count m pos = Some c"
  shows "\<exists>c'. child_count m' pos = Some c' \<and> c \<le> c'"
proof -
  from assms(2) obtain root n where r: "rows m = Some root" "get_node root pos = Some n" "c = length (children n)"
    by (auto simp: child_count_def split: option.splits)
  from assms(1) r(1) obtain root' where r': "rows m' = Some root'" "tree_ext root root'"
    by (auto simp: extends_def)
  from r'(2) r(2) obtain n' where "get_node root' pos = Some n'" "length (children n) \<le> length (children n')"
    unfolding tree_ext_def by blast
  with r r' show ?thesis by (simp add: child_count_def)
qed

lemma add_rows_loop_extends:
  assumes g: "growing nested"
  shows "add_rows_loop nested ds t pos off i rs m = Some (r, m') \<Longrightarrow>
         extends m m'
         \<and> (r = Inr () \<longrightarrow> rs \<noteq> [] \<longrightarrow>
              (\<exists>c c'. child_count m pos = Some c \<and> child_count m' pos = Some c' \<and> c + length rs \<le> c'))"
proof (induction rs arbitrary: i m)
  case Nil
  then show ?case by (simp add: extends_refl)
next
  case (Cons row rest)
  let ?G = ?case
  show ?case
  proof (cases "\<exists>idx. loop_ready idx pos row m")
    case False
    with add_rows_loop_raises [of pos row m nested ds t off i rest] Cons.prems
    show ?thesis by (auto simp: extends_refl)
  next
    case True
    then obtain idx root parent_row parent_path where
      rd: "rows m = Some root" "get_node root pos = Some parent_row"
          "path parent_row = Some parent_path" "id_column_idx m = Some idx" "idx < length (data row)"
      by (auto simp: loop_ready_def)
    define row_path where "row_path = parent_path @ [off + i]"
    define root1 where "root1 = update_node (append_child (set_path (Some row_path) row)) pos root"
    define m1 where "m1 = m\<lparr> row_id_mapper := (row_id_mapper m)(dict_key (data row ! idx)
                                        \<mapsto> pos @ [length (children parent_row)]),
                  rows := Some root1 \<rparr>"
    have step: "add_rows_loop nested ds t pos off i (row # rest) m =
       (if t then add_rows_loop nested ds t pos off (Suc i) rest m1
         else bind_outcome (get_iter nested ds row_path m1)
                (\<lambda>_ m2. add_rows_loop nested ds t pos off (Suc i) rest
                           (m2\<lparr> signals := signals m2 @ [RowInserted row_path] \<rparr>)))"
      using add_rows_loop_step [OF rd, of nested ds t off i rest]
      by (simp add: Let_def m1_def root1_def row_path_def)
    have e1: "extends m m1"
      by (simp add: extends_def m1_def rd root1_def tree_ext_append_child)
    have c0: "child_count m pos = Some (length (children parent_row))"
      by (simp add: child_count_def rd)
    have c1: "child_count m1 pos = Some (Suc (length (children parent_row)))"
      using get_node_update_at [OF rd(2), of "append_child (set_path (Some row_path) row)"]
      by (simp add: child_count_def m1_def root1_def append_child_def)
    have main: "\<And>m3. extends m1 m3 \<Longrightarrow>
                 add_rows_loop nested ds t pos off (Suc i) rest m3 = Some (r, m') \<Longrightarrow> ?G"
    proof -
      fix m3 assume e13: "extends m1 m3"
        and run: "add_rows_loop nested ds t pos off (Suc i) rest m3 = Some (r, m')"
      from Cons.IH [OF run] have e3: "extends m3 m'"
        and cnt: "r = Inr () \<longrightarrow> rest \<noteq> [] \<longrightarrow>
              (\<exists>c c'. child_count m3 pos = Some c \<and> child_count m' pos = Some c' \<and> c + length rest \<le> c')"
        by simp_all
      have e: "extends m m'" using e1 e13 e3 by (blast intro: extends_trans)
      from extends_child_count [OF e13 c1] obtain c3 where
        c3: "child_count m3 pos = Some c3" "Suc (length (children parent_row)) \<le> c3" by blast
      from extends_child_count [OF e3 c3(1)] obtain c' where
        c': "child_count m' pos = Some c'" "c3 \<le> c'" by blast
      have "r = Inr () \<longrightarrow> length (children parent_row) + length (row # rest) \<le> c'"
      proof (cases "rest = []")
        case True
        with c3 c' show ?thesis by simp
      next
        case False
        with cnt c3 c' show ?thesis by auto
      qed
      with e c0 c' show ?G by simp
    qed
    show ?thesis
    proof (cases t)
      case True
      with step Cons.prems have "add_rows_loop nested ds t pos off (Suc i) rest m1 = Some (r, m')"
        by simp
      from main [OF extends_refl this] show ?thesis .
    next
      case False
      with step Cons.prems have b: "bind_outcome (get_iter nested ds row_path m1)
                (\<lambda>_ m2. add_rows_loop nested ds t pos off (Suc i) rest
                           (m2\<lparr> signals := signals m2 @ [RowInserted row_path] \<rparr>)) = Some (r, m')"
        by simp
      from bind_outcome_Some [OF b] show ?thesis
      proof
        assume "\<exists>e. get_iter nested ds row_path m1 = Some (Inl e, m') \<and> r = Inl e"
        then obtain e where ge: "get_iter nested ds row_path m1 = Some (Inl e, m')" and re: "r = Inl e"
          by blast
        from get_iter_extends [OF g ge] e1 have "extends m m'" by (blast intro: extends_trans)
        with re show ?thesis by simp
      next
        assume "\<exists>v m2. get_iter nested ds row_path m1 = Some (Inr v, m2)
                 \<and> add_rows_loop nested ds t pos off (Suc i) rest
                           (m2\<lparr> signals := signals m2 @ [RowInserted row_path] \<rparr>) = Some (r, m')"
        then obtain v m2 where ge: "get_iter nested ds row_path m1 = Some (Inr v, m2)"
          and run: "add_rows_loop nested ds t pos off (Suc i) rest
                           (m2\<lparr> signals := signals m2 @ [RowInserted row_path] \<rparr>) = Some (r, m')"
          by blast
        from get_iter_extends [OF g ge] have "extends m1 m2" .
        then have "extends m1 (m2\<lparr> signals := signals m2 @ [RowInserted row_path] \<rparr>)"
          by (simp add: extends_def)
        from main [OF this run] show ?thesis .
      qed
    qed
  qed
qed

lemma add_rows_body_early:
  "is_tree m \<and> parent_node = None \<Longrightarrow> add_rows_body nested ds parent_node m = Some (Inr False, m)"
  by (simp add: add_rows_body_def)

lemma add_rows_body_raises:
  "\<not> (is_tree m \<and> parent_node = None) \<Longrightarrow> add_rows_target parent_node m = Inl e
   \<Longrightarrow> add_rows_body nested ds parent_node m = Some (Inl e, m)"
  by (simp add: add_rows_body_def)

lemma add_rows_body_loads:
  assumes "\<not> (is_tree m \<and> parent_node = None)"
    and "add_rows_target parent_node m = Inr (pid, pos, off, ps)"
  shows "add_rows_body nested ds parent_node m =
     (let ps' = ps\<lparr> parent_id := Some pid \<rparr>;
          calls = ds_calls m @ [Load ps'];
          m1 = m\<lparr> active_params := ps', ds_calls := calls \<rparr>;
          loaded = children (ds_load ds calls)
      in if loaded = [] then Some (Inr False, m1)
         else bind_outcome (add_rows_loop nested ds (is_tree m) pos off 0 loaded m1)
                (\<lambda>_ m2. Some (Inr True, m2)))"
  using assms by (auto simp: add_rows_body_def Let_def)

lemma add_rows_body_growing:
  assumes g: "growing nested"
  shows "growing (add_rows_body nested ds)"
  unfolding growing_def
proof (intro allI impI)
  fix p m r m'
  assume run: "add_rows_body nested ds p m = Some (r, m')"
  show "extends m m'"
  proof (cases "is_tree m \<and> p = None")
    case True
    with run show ?thesis by (simp add: add_rows_body_early extends_refl)
  next
    case early: False
    show ?thesis
    proof (cases "add_rows_target p m")
      case (Inl e)
      with run early show ?thesis by (simp add: add_rows_body_raises extends_refl)
    next
      case (Inr tgt)
      obtain pid pos off ps where tgt: "tgt = (pid, pos, off, ps)" by (cases tgt) auto
      define m1 where "m1 = m\<lparr> active_params := ps\<lparr> parent_id := Some pid \<rparr>,
                               ds_calls := ds_calls m @ [Load (ps\<lparr> parent_id := Some pid \<rparr>)] \<rparr>"
      define loaded where "loaded = children (ds_load ds (ds_calls m @ [Load (ps\<lparr> parent_id := Some pid \<rparr>)]))"
      have e1: "extends m m1" by (simp add: extends_def m1_def tree_ext_refl)
      from add_rows_body_loads [OF early, of pid pos off ps nested ds] Inr tgt
      have body: "add_rows_body nested ds p m =
          (if loaded = [] then Some (Inr False, m1)
           else bind_outcome (add_rows_loop nested ds (is_tree m) pos off 0 loaded m1)
                  (\<lambda>_ m2. Some (Inr True, m2)))"
        by (simp add: Let_def m1_def loaded_def)
      show ?thesis
      proof (cases "loaded = []")
        case True
        with body run e1 show ?thesis by simp
      next
        case False
        with body run have "bind_outcome (add_rows_loop nested ds (is_tree m) pos off 0 loaded m1)
                  (\<lambda>_ m2. Some (Inr True, m2)) = Some (r, m')" by simp
        from bind_outcome_Some [OF this] obtain r' where
          "add_rows_loop nested ds (is_tree m) pos off 0 loaded m1 = Some (r', m')"
          by auto
        from add_rows_loop_extends [OF g this] e1 show ?thesis
          by (blast intro: extends_trans)
      qed
    qed
  qed
qed

lemma add_rows_is_body:
  "\<exists>nested. growing nested \<and> add_rows depth ds = add_rows_body nested ds"
proof (induction depth)
  case 0
  have "growing (\<lambda>_ _. None)" by (simp add: growing_def)
  then show ?case by (intro exI [of _ "\<lambda>_ _. None"]) simp
next
  case (Suc depth)
  then obtain nested where "growing nested" "add_rows depth ds = add_rows_body nested ds"
    by blast
  then have "growing (add_rows depth ds)" by (simp add: add_rows_body_growing)
  then show ?case by (intro exI [of _ "add_rows depth ds"]) simp
qed

text \<open>What a call that returns \<open>False\<close> has done.\<close>

lemma add_rows_False:
  assumes "add_rows depth ds parent_node m = Some (Inr False, m')"
  shows "(is_tree m \<and> parent_node = None \<and> m' = m)
         \<or> (\<not> (is_tree m \<and> parent_node = None)
            \<and> (\<exists>pid pos off ps. add_rows_target parent_node m = Inr (pid, pos, off, ps)
                 \<and> m' = m\<lparr> active_params := ps\<lparr> parent_id := Some pid \<rparr>,
                            ds_calls := ds_calls m @ [Load (ps\<lparr> parent_id := Some pid \<rparr>)] \<rparr>
                 \<and> children (ds_load ds (ds_calls m @ [Load (ps\<lparr> parent_id := Some pid \<rparr>)])) = []))"
proof -
  obtain nested where b: "add_rows depth ds = add_rows_body nested ds"
    using add_rows_is_body by blast
  show ?thesis
  proof (cases "is_tree m \<and> parent_node = None")
    case True
    with assms b show ?thesis by (simp add: add_rows_body_early)
  next
    case early: False
    show ?thesis
    proof (cases "add_rows_target parent_node m")
      case (Inl e)
      with assms b early show ?thesis by (simp add: add_rows_body_raises)
    next
      case (Inr tgt)
      obtain pid pos off ps where tgt: "tgt = (pid, pos, off, ps)" by (cases tgt) auto
      let ?calls = "ds_calls m @ [Load (ps\<lparr> parent_id := Some pid \<rparr>)]"
      from add_rows_body_loads [OF early, of pid pos off ps nested ds] Inr tgt assms b
      have run: "(if children (ds_load ds ?calls) = []
                  then Some (Inr False, m\<lparr> active_params := ps\<lparr> parent_id := Some pid \<rparr>, ds_calls := ?calls \<rparr>)
                  else bind_outcome
                         (add_rows_loop nested ds (is_tree m) pos off 0 (children (ds_load ds ?calls))
                            (m\<lparr> active_params := ps\<lparr> parent_id := Some pid \<rparr>, ds_calls := ?calls \<rparr>))
                         (\<lambda>_ m2. Some (Inr True, m2))) = Some (Inr False, m')"
        by (simp add: Let_def)
      show ?thesis
      proof (cases "children (ds_load ds ?calls) = []")
        case True
        with run early Inr tgt show ?thesis by auto
      next
        case False
        with run have "bind_outcome
                         (add_rows_loop nested ds (is_tree m) pos off 0 (children (ds_load ds ?calls))
                            (m\<lparr> active_params := ps\<lparr> parent_id := Some pid \<rparr>, ds_calls := ?calls \<rparr>))
                         (\<lambda>_ m2. Some (Inr True, m2)) = Some (Inr False, m')" by simp
        from bind_outcome_Some [OF this] show ?thesis by auto
      qed
    qed
  qed
qed

lemma add_rows_zero_rows:
  assumes "\<not> (is_tree m \<and> parent_node = None)"
    and "add_rows_target parent_node m = Inr (pid, pos, off, ps)"
    and "children (ds_load ds (ds_calls m @ [Load (ps\<lparr> parent_id := Some pid \<rparr>)])) = []"
  shows "add_rows depth ds parent_node m =
           Some (Inr False, m\<lparr> active_params := ps\<lparr> parent_id := Some pid \<rparr>,
                               ds_calls := ds_calls m @ [Load (ps\<lparr> parent_id := Some pid \<rparr>)] \<rparr>)"
proof -
  obtain nested where b: "add_rows depth ds = add_rows_body nested ds"
    using add_rows_is_body by blast
  from add_rows_body_loads [OF assms(1,2), of nested ds] assms(3) b show ?thesis
    by (simp add: Let_def)
qed

lemma add_rows_early:
  "is_tree m \<and> parent_node = None \<Longrightarrow> add_rows depth ds parent_node m = Some (Inr False, m)"
  using add_rows_is_body [of depth ds] by (auto simp: add_rows_body_early)

lemma add_rows_True:
  assumes "add_rows depth ds parent_node m = Some (Inr True, m')"
  shows "\<not> (is_tree m \<and> parent_node = None)
         \<and> (\<exists>pid pos off ps c c'. add_rows_target parent_node m = Inr (pid, pos, off, ps)
              \<and> children (ds_load ds (ds_calls m @ [Load (ps\<lparr> parent_id := Some pid \<rparr>)])) \<noteq> []
              \<and> child_count m pos = Some c \<and> child_count m' pos = Some c'
              \<and> c + length (children (ds_load ds (ds_calls m @ [Load (ps\<lparr> parent_id := Some pid \<rparr>)]))) \<le> c')"
proof -
  obtain nested where g: "growing nested" and b: "add_rows depth ds = add_rows_body nested ds"
    using add_rows_is_body by blast
  have early: "\<not> (is_tree m \<and> parent_node = None)"
  proof
    assume "is_tree m \<and> parent_node = None"
    from add_rows_body_early [OF this, of nested ds] assms b show False by simp
  qed
  show ?thesis
  proof (cases "add_rows_target parent_node m")
    case (Inl e)
    with assms b early show ?thesis by (simp add: add_rows_body_raises)
  next
    case (Inr tgt)
    obtain pid pos off ps where tgt: "tgt = (pid, pos, off, ps)" by (cases tgt) auto
    let ?calls = "ds_calls m @ [Load (ps\<lparr> parent_id := Some pid \<rparr>)]"
    let ?m1 = "m\<lparr> active_params := ps\<lparr> parent_id := Some pid \<rparr>, ds_calls := ?calls \<rparr>"
    let ?loaded = "children (ds_load ds ?calls)"
    from add_rows_body_loads [OF early, of pid pos off ps nested ds] Inr tgt assms b
    have run: "(if ?loaded = [] then Some (Inr False, ?m1)
                else bind_outcome (add_rows_loop nested ds (is_tree m) pos off 0 ?loaded ?m1)
                       (\<lambda>_ m2. Some (Inr True, m2))) = Some (Inr True, m')"
      by (simp add: Let_def)
    then have ne: "?loaded \<noteq> []" by (auto split: if_splits)
    with run have "bind_outcome (add_rows_loop nested ds (is_tree m) pos off 0 ?loaded ?m1)
                       (\<lambda>_ m2. Some (Inr True, m2)) = Some (Inr True, m')" by simp
    from bind_outcome_Some [OF this]
    have loop: "add_rows_loop nested ds (is_tree m) pos off 0 ?loaded ?m1 = Some (Inr (), m')"
      by auto
    from add_rows_loop_extends [OF g loop] ne obtain c c' where
      "child_count ?m1 pos = Some c" "child_count m' pos = Some c'" "c + length ?loaded \<le> c'"
      by auto
    moreover have "child_count ?m1 pos = child_count m pos" by (simp add: child_count_def)
    ultimately show ?thesis using early Inr tgt ne by auto
  qed
qed

lemma get_iter_new_root_row:
  assumes "rows m = Some root" and "k < length (children root)"
    and "is_children_loaded ds False (children root ! k)"
  shows "get_iter nested ds [k] m = Some (Inr [k], m)"
  using assms
  by (simp add: get_iter_def on_get_iter_def get_row_by_path_def ensure_children_is_loaded_def
      bind_outcome_def)

lemma add_rows_loop_completes:
  assumes "id_column_idx m = Some idx" and "\<forall>row \<in> set rs. idx < length (data row)"
    and "rows m = Some root" and "get_node root pos = Some prow" and "path prow = Some pp"
    and "t \<or> (pos = [] \<and> pp = [] \<and> off + i = length (children root)
               \<and> (\<forall>row \<in> set rs. \<forall>p. is_children_loaded ds False (set_path p row)))"
  shows "\<exists>m'. add_rows_loop nested ds t pos off i rs m = Some (Inr (), m')"
  using assms
proof (induction rs arbitrary: i m root prow)
  case Nil
  then show ?case by simp
next
  case (Cons row rest)
  define row_path where "row_path = pp @ [off + i]"
  define root1 where "root1 = update_node (append_child (set_path (Some row_path) row)) pos root"
  define m1 where "m1 = m\<lparr> row_id_mapper := (row_id_mapper m)(dict_key (data row ! idx)
                                        \<mapsto> pos @ [length (children prow)]),
                  rows := Some root1 \<rparr>"
  have idx: "idx < length (data row)" and rest: "\<forall>row \<in> set rest. idx < length (data row)"
    using Cons.prems(2) by simp_all
  have step: "add_rows_loop nested ds t pos off i (row # rest) m =
       (if t then add_rows_loop nested ds t pos off (Suc i) rest m1
         else bind_outcome (get_iter nested ds row_path m1)
                (\<lambda>_ m2. add_rows_loop nested ds t pos off (Suc i) rest
                           (m2\<lparr> signals := signals m2 @ [RowInserted row_path] \<rparr>)))"
    using add_rows_loop_step [OF Cons.prems(3,4,5,1) idx, of nested ds t off i rest]
    by (simp add: Let_def m1_def root1_def row_path_def)
  have par1: "get_node root1 pos = Some (append_child (set_path (Some row_path) row) prow)"
    unfolding root1_def by (rule get_node_update_at [OF Cons.prems(4)])
  have pp1: "path (append_child (set_path (Some row_path) row) prow) = Some pp"
    using Cons.prems(5) by (simp add: append_child_def)
  show ?case
  proof (cases t)
    case True
    have "\<exists>m'. add_rows_loop nested ds t pos off (Suc i) rest m1 = Some (Inr (), m')"
      by (rule Cons.IH [of m1 root1, OF _ rest _ par1 pp1])
         (simp_all add: m1_def Cons.prems(1) True)
    with step True show ?thesis by simp
  next
    case False
    with Cons.prems(6) have flat: "pos = []" "pp = []" "off + i = length (children root)"
      and ld: "\<forall>p. is_children_loaded ds False (set_path p row)"
      and ldrest: "\<forall>row \<in> set rest. \<forall>p. is_children_loaded ds False (set_path p row)"
      by simp_all
    have r1: "root1 = append_child (set_path (Some row_path) row) root"
      by (simp add: root1_def flat)
    have rp: "row_path = [length (children root)]"
      by (simp add: row_path_def flat)
    have gi: "get_iter nested ds row_path m1 = Some (Inr row_path, m1)"
      unfolding rp
      by (rule get_iter_new_root_row [of m1 root1])
         (simp_all add: m1_def r1 append_child_def ld)
    let ?m2 = "m1\<lparr> signals := signals m1 @ [RowInserted row_path] \<rparr>"
    have "\<exists>m'. add_rows_loop nested ds t pos off (Suc i) rest ?m2 = Some (Inr (), m')"
      by (rule Cons.IH [of ?m2 root1, OF _ rest _ par1 pp1])
         (simp_all add: m1_def Cons.prems(1) flat r1 append_child_def ldrest)
    with step False gi show ?thesis by (simp add: bind_outcome_def)
  qed
qed

lemma add_rows_completes:
  assumes "\<not> (is_tree m \<and> parent_node = None)"
    and "add_rows_target parent_node m = Inr (pid, pos, off, ps)"
    and "children (ds_load ds (ds_calls m @ [Load (ps\<lparr> parent_id := Some pid \<rparr>)])) \<noteq> []"
    and "id_column_idx m = Some idx"
    and "\<forall>row \<in> set (children (ds_load ds (ds_calls m @ [Load (ps\<lparr> parent_id := Some pid \<rparr>)]))).
           idx < length (data row)"
    and "rows m = Some root" and "get_node root pos = Some prow" and "path prow = Some pp"
    and "is_tree m \<or> (pos = [] \<and> pp = [] \<and> off = length (children root)
           \<and> (\<forall>row \<in> set (children (ds_load ds (ds_calls m @ [Load (ps\<lparr> parent_id := Some pid \<rparr>)]))).
                 \<forall>p. is_children_loaded ds False (set_path p row)))"
  shows "\<exists>m'. add_rows depth ds parent_node m = Some (Inr True, m')"
proof -
  obtain nested where b: "add_rows depth ds = add_rows_body nested ds"
    using add_rows_is_body by blast
  let ?calls = "ds_calls m @ [Load (ps\<lparr> parent_id := Some pid \<rparr>)]"
  let ?m1 = "m\<lparr> active_params := ps\<lparr> parent_id := Some pid \<rparr>, ds_calls := ?calls \<rparr>"
  have "\<exists>m'. add_rows_loop nested ds (is_tree m) pos off 0 (children (ds_load ds ?calls)) ?m1
              = Some (Inr (), m')"
    by (rule add_rows_loop_completes [of ?m1 idx _ root pos prow pp])
       (use assms in simp_all)
  then obtain m' where "add_rows_loop nested ds (is_tree m) pos off 0 (children (ds_load ds ?calls)) ?m1
              = Some (Inr (), m')" by blast
  with add_rows_body_loads [OF assms(1,2), of nested ds] assms(3) b
  show ?thesis by (simp add: Let_def bind_outcome_def)
qed

lemma first_page_refresh:
  "snd (refresh paged_source (init_model selected_columns)) = first_page"
  by (simp add: first_page_def refresh_def paged_source_def source_of_def init_model_def
      init_params_def paged_answer_def two_roots_def set_path_def dict_key_def Let_def)

lemma first_page_target:
  "add_rows_target None first_page = Inr (VNone, [], 2, init_params\<lparr> page := Some 1 \<rparr>)"
  by (simp add: add_rows_target_def first_page_def init_params_def)

lemma second_page_add_rows:
  "add_rows (Suc 0) paged_source None first_page = Some (Inr True, second_page)"
  by (simp add: add_rows_body_def first_page_target is_tree_def Let_def)
     (simp add: first_page_def second_page_def paged_source_def source_of_def paged_answer_def
        init_params_def get_iter_def on_get_iter_def get_row_by_path_def
        ensure_children_is_loaded_def bind_outcome_def set_path_def append_child_def
        dict_key_def Let_def numeral_2_eq_2)

lemma add_rows_target_root:
  assumes "add_rows_target None m = Inr (pid, pos, off, ps)"
  shows "pid = VNone \<and> pos = []
         \<and> ps = (active_params m)\<lparr> page :=
                   Some ((case page (active_params m) of None \<Rightarrow> 0 | Some p \<Rightarrow> p) + 1) \<rparr>"
  using assms by (auto simp: add_rows_target_def split: option.splits if_splits)

lemma add_rows_target_parent:
  assumes "add_rows_target (Some p) m = Inr (pid, pos, off, ps)"
  shows "\<exists>root row idx. rows m = Some root \<and> get_node root p = Some row
           \<and> id_column_idx m = Some idx \<and> idx < length (data row)
           \<and> pid = data row ! idx \<and> pos = p \<and> off = 0 \<and> ps = active_params m"
  using assms by (auto simp: add_rows_target_def split: option.splits if_splits)

text \<open>
  C10, as stated, fails in its last clause: the early return is not the only call that
  leaves the query parameters as they were. Asking for the children of a row whose id
  \<open>parent_id\<close> already holds, here a second time for the same row, returns \<open>False\<close> with
  the parameters untouched, in a display that is not hierarchical.
\<close>

theorem add_rows_same_parent_counterexample:
  "\<not> is_tree first_page
   \<and> add_rows (Suc 0) paged_source (Some [0]) first_page = Some (Inr False, asked_page)
   \<and> \<not> is_tree asked_page
   \<and> add_rows (Suc 0) paged_source (Some [0]) asked_page
       = Some (Inr False,
               asked_page\<lparr> ds_calls := ds_calls asked_page @ [Load (active_params asked_page)] \<rparr>)
   \<and> active_params (asked_page\<lparr> ds_calls := ds_calls asked_page @ [Load (active_params asked_page)] \<rparr>)
       = active_params asked_page"
proof -
  have n: "\<not> is_tree first_page" "\<not> is_tree asked_page"
    by (simp_all add: is_tree_def first_page_def asked_page_def init_params_def)
  have t1: "add_rows_target (Some [0]) first_page = Inr (VInt 7, [0], 0, init_params)"
    by (simp add: add_rows_target_def first_page_def)
  have t2: "add_rows_target (Some [0]) asked_page
              = Inr (VInt 7, [0], 0, init_params\<lparr> parent_id := Some (VInt 7) \<rparr>)"
    by (simp add: add_rows_target_def first_page_def asked_page_def)
  have z1: "children (ds_load paged_source
      (ds_calls first_page @ [Load (init_params\<lparr> parent_id := Some (VInt 7) \<rparr>)])) = []"
    by (simp add: paged_source_def source_of_def paged_answer_def init_params_def)
  have z2: "children (ds_load paged_source
      (ds_calls asked_page @ [Load (init_params\<lparr> parent_id := Some (VInt 7), parent_id := Some (VInt 7) \<rparr>)])) = []"
    by (simp add: paged_source_def source_of_def paged_answer_def init_params_def)
  from add_rows_zero_rows [of first_page "Some [0]" "VInt 7" "[0]" 0 init_params paged_source "Suc 0"]
    n(1) t1 z1
  have r1: "add_rows (Suc 0) paged_source (Some [0]) first_page = Some (Inr False, asked_page)"
    by (simp add: asked_page_def first_page_def)
  from add_rows_zero_rows [of asked_page "Some [0]" "VInt 7" "[0]" 0
      "init_params\<lparr> parent_id := Some (VInt 7) \<rparr>" paged_source "Suc 0"] n(2) t2 z2
  have r2: "add_rows (Suc 0) paged_source (Some [0]) asked_page
       = Some (Inr False,
               asked_page\<lparr> ds_calls := ds_calls asked_page @ [Load (active_params asked_page)] \<rparr>)"
    by (simp add: asked_page_def first_page_def)
  from n r1 r2 show ?thesis by simp
qed

text \<open>
  C10, amended. A call of \<open>add_rows\<close> that returns \<open>False\<close> because the load returned no
  rows has made that load with the changed parameters and keeps them: for the root the
  page is one more than before (counting from 0 when there was none) and \<open>parent_id\<close> is
  \<open>None\<close>, for a parent node \<open>parent_id\<close> is the parent's value at the id column, and
  nothing else in the parameters differs. Such a call does return whenever the target can
  be determined and the load is empty. The early return for hierarchical display without
  a parent leaves the whole state, the parameters included, as it was. A call that returns
  \<open>False\<close> after an empty load leaves the parameters as they were exactly when it was
  made for a parent node whose id \<open>parent_id\<close> already held; paging the root always
  changes them.
\<close>

theorem add_rows_keeps_changed_params:
  "(is_tree m \<and> parent_node = None \<longrightarrow> add_rows depth ds parent_node m = Some (Inr False, m))
   \<and> (\<not> (is_tree m \<and> parent_node = None)
        \<and> add_rows depth ds parent_node m = Some (Inr False, m') \<longrightarrow>
          children (ds_load ds (ds_calls m')) = []
          \<and> ds_calls m' = ds_calls m @ [Load (active_params m')]
          \<and> (parent_node = None \<longrightarrow>
                active_params m' = (active_params m)\<lparr>
                  page := Some ((case page (active_params m) of None \<Rightarrow> 0 | Some p \<Rightarrow> p) + 1),
                  parent_id := Some VNone \<rparr>)
          \<and> (\<forall>p. parent_node = Some p \<longrightarrow>
                (\<exists>root row idx. rows m = Some root \<and> get_node root p = Some row
                   \<and> id_column_idx m = Some idx \<and> idx < length (data row)
                   \<and> active_params m' = (active_params m)\<lparr> parent_id := Some (data row ! idx) \<rparr>)))
   \<and> (\<not> (is_tree m \<and> parent_node = None)
        \<and> add_rows_target parent_node m = Inr (pid, pos, off, ps)
        \<and> children (ds_load ds (ds_calls m @ [Load (ps\<lparr> parent_id := Some pid \<rparr>)])) = [] \<longrightarrow>
          add_rows depth ds parent_node m
            = Some (Inr False, m\<lparr> active_params := ps\<lparr> parent_id := Some pid \<rparr>,
                                  ds_calls := ds_calls m @ [Load (ps\<lparr> parent_id := Some pid \<rparr>)] \<rparr>))
   \<and> (\<not> (is_tree m \<and> parent_node = None)
        \<and> add_rows depth ds parent_node m = Some (Inr False, m') \<longrightarrow>
          (active_params m' = active_params m
             \<longleftrightarrow> (\<exists>p root row idx. parent_node = Some p \<and> rows m = Some root
                    \<and> get_node root p = Some row \<and> id_column_idx m = Some idx
                    \<and> parent_id (active_params m) = Some (data row ! idx))))"
proof -
  have A: "is_tree m \<and> parent_node = None \<longrightarrow> add_rows depth ds parent_node m = Some (Inr False, m)"
    by (simp add: add_rows_early)
  have C: "\<not> (is_tree m \<and> parent_node = None)
        \<and> add_rows_target parent_node m = Inr (pid, pos, off, ps)
        \<and> children (ds_load ds (ds_calls m @ [Load (ps\<lparr> parent_id := Some pid \<rparr>)])) = [] \<longrightarrow>
          add_rows depth ds parent_node m
            = Some (Inr False, m\<lparr> active_params := ps\<lparr> parent_id := Some pid \<rparr>,
                                  ds_calls := ds_calls m @ [Load (ps\<lparr> parent_id := Some pid \<rparr>)] \<rparr>)"
    using add_rows_zero_rows [of m parent_node pid pos off ps ds depth] by blast
  have B: "\<not> (is_tree m \<and> parent_node = None)
        \<and> add_rows depth ds parent_node m = Some (Inr False, m') \<longrightarrow>
          children (ds_load ds (ds_calls m')) = []
          \<and> ds_calls m' = ds_calls m @ [Load (active_params m')]
          \<and> (parent_node = None \<longrightarrow>
                active_params m' = (active_params m)\<lparr>
                  page := Some ((case page (active_params m) of None \<Rightarrow> 0 | Some p \<Rightarrow> p) + 1),
                  parent_id := Some VNone \<rparr>)
          \<and> (\<forall>p. parent_node = Some p \<longrightarrow>
                (\<exists>root row idx. rows m = Some root \<and> get_node root p = Some row
                   \<and> id_column_idx m = Some idx \<and> idx < length (data row)
                   \<and> active_params m' = (active_params m)\<lparr> parent_id := Some (data row ! idx) \<rparr>))"
  proof
    assume a: "\<not> (is_tree m \<and> parent_node = None)
        \<and> add_rows depth ds parent_node m = Some (Inr False, m')"
    with add_rows_False [of depth ds parent_node m m'] obtain pid' pos' off' ps' where
      t: "add_rows_target parent_node m = Inr (pid', pos', off', ps')"
      and m': "m' = m\<lparr> active_params := ps'\<lparr> parent_id := Some pid' \<rparr>,
                        ds_calls := ds_calls m @ [Load (ps'\<lparr> parent_id := Some pid' \<rparr>)] \<rparr>"
      and z: "children (ds_load ds (ds_calls m @ [Load (ps'\<lparr> parent_id := Some pid' \<rparr>)])) = []"
      by blast
    have 1: "children (ds_load ds (ds_calls m')) = []" using z by (simp add: m')
    have 2: "ds_calls m' = ds_calls m @ [Load (active_params m')]" by (simp add: m')
    have 3: "parent_node = None \<longrightarrow>
                active_params m' = (active_params m)\<lparr>
                  page := Some ((case page (active_params m) of None \<Rightarrow> 0 | Some p \<Rightarrow> p) + 1),
                  parent_id := Some VNone \<rparr>"
      using t add_rows_target_root [of m pid' pos' off' ps'] by (auto simp: m')
    have 4: "\<forall>p. parent_node = Some p \<longrightarrow>
                (\<exists>root row idx. rows m = Some root \<and> get_node root p = Some row
                   \<and> id_column_idx m = Some idx \<and> idx < length (data row)
                   \<and> active_params m' = (active_params m)\<lparr> parent_id := Some (data row ! idx) \<rparr>)"
    proof (intro allI impI)
      fix p assume "parent_node = Some p"
      with t add_rows_target_parent [of p m pid' pos' off' ps']
      show "\<exists>root row idx. rows m = Some root \<and> get_node root p = Some row
                   \<and> id_column_idx m = Some idx \<and> idx < length (data row)
                   \<and> active_params m' = (active_params m)\<lparr> parent_id := Some (data row ! idx) \<rparr>"
        by (auto simp: m')
    qed
    from 1 2 3 4 show "children (ds_load ds (ds_calls m')) = []
          \<and> ds_calls m' = ds_calls m @ [Load (active_params m')]
          \<and> (parent_node = None \<longrightarrow>
                active_params m' = (active_params m)\<lparr>
                  page := Some ((case page (active_params m) of None \<Rightarrow> 0 | Some p \<Rightarrow> p) + 1),
                  parent_id := Some VNone \<rparr>)
          \<and> (\<forall>p. parent_node = Some p \<longrightarrow>
                (\<exists>root row idx. rows m = Some root \<and> get_node root p = Some row
                   \<and> id_column_idx m = Some idx \<and> idx < length (data row)
                   \<and> active_params m' = (active_params m)\<lparr> parent_id := Some (data row ! idx) \<rparr>))"
      by blast
  qed
  have E: "\<not> (is_tree m \<and> parent_node = None)
        \<and> add_rows depth ds parent_node m = Some (Inr False, m') \<longrightarrow>
          (active_params m' = active_params m
             \<longleftrightarrow> (\<exists>p root row idx. parent_node = Some p \<and> rows m = Some root
                    \<and> get_node root p = Some row \<and> id_column_idx m = Some idx
                    \<and> parent_id (active_params m) = Some (data row ! idx)))"
  proof
    assume a: "\<not> (is_tree m \<and> parent_node = None)
        \<and> add_rows depth ds parent_node m = Some (Inr False, m')"
    with B have root: "parent_node = None \<longrightarrow>
                active_params m' = (active_params m)\<lparr>
                  page := Some ((case page (active_params m) of None \<Rightarrow> 0 | Some p \<Rightarrow> p) + 1),
                  parent_id := Some VNone \<rparr>"
      and parent: "\<forall>p. parent_node = Some p \<longrightarrow>
                (\<exists>root row idx. rows m = Some root \<and> get_node root p = Some row
                   \<and> id_column_idx m = Some idx \<and> idx < length (data row)
                   \<and> active_params m' = (active_params m)\<lparr> parent_id := Some (data row ! idx) \<rparr>)"
      by blast+
    show "active_params m' = active_params m
             \<longleftrightarrow> (\<exists>p root row idx. parent_node = Some p \<and> rows m = Some root
                    \<and> get_node root p = Some row \<and> id_column_idx m = Some idx
                    \<and> parent_id (active_params m) = Some (data row ! idx))"
    proof (cases parent_node)
      case None
      with root have "page (active_params m')
                        = Some ((case page (active_params m) of None \<Rightarrow> 0 | Some p \<Rightarrow> p) + 1)"
        by simp
      then have "page (active_params m') \<noteq> page (active_params m)"
        by (cases "page (active_params m)") simp_all
      then have "active_params m' \<noteq> active_params m" by auto
      with None show ?thesis by simp
    next
      case (Some p)
      with parent obtain root row idx where r: "rows m = Some root" "get_node root p = Some row"
        "id_column_idx m = Some idx"
        and m': "active_params m' = (active_params m)\<lparr> parent_id := Some (data row ! idx) \<rparr>"
        by blast
      have "(active_params m)\<lparr> parent_id := Some (data row ! idx) \<rparr> = active_params m
              \<longleftrightarrow> parent_id (active_params m) = Some (data row ! idx)"
      proof
        assume "(active_params m)\<lparr> parent_id := Some (data row ! idx) \<rparr> = active_params m"
        then have "parent_id ((active_params m)\<lparr> parent_id := Some (data row ! idx) \<rparr>)
                     = parent_id (active_params m)" by simp
        then show "parent_id (active_params m) = Some (data row ! idx)" by simp
      next
        assume "parent_id (active_params m) = Some (data row ! idx)"
        then show "(active_params m)\<lparr> parent_id := Some (data row ! idx) \<rparr> = active_params m"
          by simp
      qed
      with Some r m' show ?thesis by auto
    qed
  qed
  from A B C E show ?thesis by (intro conjI)
qed

lemma second_page_target:
  "add_rows_target None second_page
     = Inr (VNone, [], 3, init_params\<lparr> page := Some 2, parent_id := Some VNone \<rparr>)"
  by (simp add: add_rows_target_def second_page_def first_page_def init_params_def)

lemma first_page_parent_target:
  "add_rows_target (Some [0]) first_page = Inr (VInt 7, [0], 0, init_params)"
  by (simp add: add_rows_target_def first_page_def)

lemma paged_source_after_last:
  "children (ds_load paged_source
      (ds_calls second_page @ [Load (init_params\<lparr> page := Some 2, parent_id := Some VNone \<rparr>)])) = []"
  by (simp add: paged_source_def source_of_def paged_answer_def init_params_def)

lemma paged_source_no_children:
  "children (ds_load paged_source
      (ds_calls first_page @ [Load (init_params\<lparr> parent_id := Some (VInt 7) \<rparr>)])) = []"
  by (simp add: paged_source_def source_of_def paged_answer_def init_params_def)

lemma not_tree_pages: "\<not> is_tree first_page" "\<not> is_tree second_page" "is_tree tree_page"
  by (simp_all add: is_tree_def first_page_def second_page_def tree_page_def init_params_def)

theorem add_rows_keeps_changed_params_witness:
  "is_tree tree_page
   \<and> add_rows (Suc 0) tree_source None tree_page = Some (Inr False, tree_page)
   \<and> \<not> is_tree second_page
   \<and> page (active_params second_page) = Some 1
   \<and> (\<exists>m'. add_rows (Suc 0) paged_source None second_page = Some (Inr False, m')
          \<and> active_params m' = init_params\<lparr> page := Some 2, parent_id := Some VNone \<rparr>)
   \<and> \<not> is_tree first_page
   \<and> parent_id (active_params first_page) = None
   \<and> (\<exists>m'. add_rows (Suc 0) paged_source (Some [0]) first_page = Some (Inr False, m')
          \<and> active_params m' = init_params\<lparr> parent_id := Some (VInt 7) \<rparr>)
   \<and> \<not> is_tree asked_page
   \<and> parent_id (active_params asked_page) = Some (VInt 7)
   \<and> (\<exists>m'. add_rows (Suc 0) paged_source (Some [0]) asked_page = Some (Inr False, m')
          \<and> active_params m' = active_params asked_page)"
proof -
  have early: "add_rows (Suc 0) tree_source None tree_page = Some (Inr False, tree_page)"
    using add_rows_keeps_changed_params [where m = tree_page and parent_node = None
        and depth = "Suc 0" and ds = tree_source] not_tree_pages(3)
    by blast
  let ?ps2 = "init_params\<lparr> page := Some 2, parent_id := Some VNone \<rparr>"
  let ?m2 = "second_page\<lparr> active_params := ?ps2\<lparr> parent_id := Some VNone \<rparr>,
                ds_calls := ds_calls second_page @ [Load (?ps2\<lparr> parent_id := Some VNone \<rparr>)] \<rparr>"
  note t2 = add_rows_keeps_changed_params [where m = second_page and parent_node = None
        and depth = "Suc 0" and ds = paged_source and pid = VNone and pos = "[]" and off = 3
        and ps = ?ps2 and m' = ?m2]
  have z2: "children (ds_load paged_source (ds_calls second_page @ [Load (?ps2\<lparr> parent_id := Some VNone \<rparr>)])) = []"
    using paged_source_after_last by simp
  from t2 not_tree_pages(2) second_page_target z2
  have r2: "add_rows (Suc 0) paged_source None second_page = Some (Inr False, ?m2)"
    by blast
  have p2: "active_params ?m2 = ?ps2" by simp
  let ?ps1 = "init_params\<lparr> parent_id := Some (VInt 7) \<rparr>"
  let ?m1 = "first_page\<lparr> active_params := ?ps1, ds_calls := ds_calls first_page @ [Load ?ps1] \<rparr>"
  note t1 = add_rows_keeps_changed_params [where m = first_page and parent_node = "Some [0]"
        and depth = "Suc 0" and ds = paged_source and pid = "VInt 7" and pos = "[0]" and off = 0
        and ps = init_params and m' = ?m1]
  from t1 not_tree_pages(1) first_page_parent_target paged_source_no_children
  have r1: "add_rows (Suc 0) paged_source (Some [0]) first_page = Some (Inr False, ?m1)"
    by blast
  have p1: "active_params ?m1 = ?ps1" by simp
  have pg: "page (active_params second_page) = Some 1"
    by (simp add: second_page_def)
  have pid: "parent_id (active_params first_page) = None"
    by (simp add: first_page_def init_params_def)
  let ?ps3 = "init_params\<lparr> parent_id := Some (VInt 7) \<rparr>"
  let ?m3 = "asked_page\<lparr> active_params := ?ps3\<lparr> parent_id := Some (VInt 7) \<rparr>,
                ds_calls := ds_calls asked_page @ [Load (?ps3\<lparr> parent_id := Some (VInt 7) \<rparr>)] \<rparr>"
  note t3 = add_rows_keeps_changed_params [where m = asked_page and parent_node = "Some [0]"
        and depth = "Suc 0" and ds = paged_source and pid = "VInt 7" and pos = "[0]" and off = 0
        and ps = ?ps3 and m' = ?m3]
  have n3: "\<not> is_tree asked_page"
    by (simp add: is_tree_def asked_page_def first_page_def)
  have tg3: "add_rows_target (Some [0]) asked_page = Inr (VInt 7, [0], 0, ?ps3)"
    by (simp add: add_rows_target_def first_page_def asked_page_def)
  have z3: "children (ds_load paged_source
      (ds_calls asked_page @ [Load (?ps3\<lparr> parent_id := Some (VInt 7) \<rparr>)])) = []"
    by (simp add: paged_source_def source_of_def paged_answer_def init_params_def)
  from t3 n3 tg3 z3
  have r3: "add_rows (Suc 0) paged_source (Some [0]) asked_page = Some (Inr False, ?m3)"
    by blast
  have h3: "rows asked_page = Some (Node [] (Some []) [Node [VBool False, VInt 7] (Some [0]) [],
                                      Node [VBool False, VInt 9] (Some [1]) []])"
    "id_column_idx asked_page = Some 1" "parent_id (active_params asked_page) = Some (VInt 7)"
    by (simp_all add: asked_page_def first_page_def)
  have "\<exists>p root row idx. Some [0] = Some p \<and> rows asked_page = Some root
          \<and> get_node root p = Some row \<and> id_column_idx asked_page = Some idx
          \<and> parent_id (active_params asked_page) = Some (data row ! idx)"
    by (intro exI [of _ "[0]"] exI [of _ "Node [] (Some []) [Node [VBool False, VInt 7] (Some [0]) [],
                                      Node [VBool False, VInt 9] (Some [1]) []]"]
          exI [of _ "Node [VBool False, VInt 7] (Some [0]) []"] exI [of _ 1])
       (simp add: h3)
  with t3 n3 r3 have p3: "active_params ?m3 = active_params asked_page" by blast
  from r3 p3 have same: "\<exists>m'. add_rows (Suc 0) paged_source (Some [0]) asked_page = Some (Inr False, m')
          \<and> active_params m' = active_params asked_page" by blast
  from early not_tree_pages r2 p2 r1 p1 pg pid n3 h3(3) same show ?thesis by blast
qed

lemma empty_page_refresh:
  "refresh empty_source (init_model selected_columns) = (Inr (), empty_page)"
  by (simp add: empty_page_def refresh_def empty_source_def source_of_def init_model_def
      init_params_def set_path_def Let_def)

lemma empty_page_rows: "rows empty_page = Some (Node [] (Some []) [])"
  by (simp add: empty_page_def refresh_def empty_source_def source_of_def init_model_def
      init_params_def set_path_def Let_def)

lemma empty_page_not_tree: "\<not> is_tree empty_page"
  by (simp add: empty_page_def refresh_def empty_source_def source_of_def init_model_def
      init_params_def set_path_def Let_def is_tree_def)

text \<open>Without an id column the call raises at \<open>data[self.id_column_idx]\<close>.\<close>

lemma add_rows_no_id_column:
  "\<not> is_tree no_id_page
   \<and> add_rows (Suc 0) no_id_source None no_id_page = Some (Inl TypeError, no_id_page)"
  by (simp add: no_id_page_def refresh_def no_id_source_def
      source_of_def init_model_def init_params_def two_roots_def set_path_def Let_def
      is_tree_def add_rows_body_def add_rows_target_def)

text \<open>
  What \<open>add_rows\<close> does when it does not raise. With hierarchical display and no parent
  node the call returns \<open>False\<close> and changes nothing. When the target of the call can be
  determined and the load returns no rows, the call returns \<open>False\<close> and the root rows and
  the row-id index are as before. A call that returns \<open>False\<close> is one of these two, and has
  left the root rows and the index as they were. A call that returns \<open>True\<close> has loaded at
  least one row and the target has at least that many children more than before. The call
  does return \<open>True\<close> when the load is not empty, the target has a path, the id column is
  defined and every loaded row holds it, and either the display is hierarchical or the
  root is paged with the new rows arriving at the places their paths name and with nothing
  of their own to load.
\<close>

lemma add_rows_outcomes:
  "(is_tree m \<and> parent_node = None \<longrightarrow> add_rows depth ds parent_node m = Some (Inr False, m))
   \<and> (\<not> (is_tree m \<and> parent_node = None)
        \<and> add_rows_target parent_node m = Inr (pid, pos, off, ps)
        \<and> children (ds_load ds (ds_calls m @ [Load (ps\<lparr> parent_id := Some pid \<rparr>)])) = [] \<longrightarrow>
          (\<exists>m1. add_rows depth ds parent_node m = Some (Inr False, m1)
             \<and> rows m1 = rows m \<and> row_id_mapper m1 = row_id_mapper m))
   \<and> (add_rows depth ds parent_node m = Some (Inr False, m') \<longrightarrow>
          rows m' = rows m \<and> row_id_mapper m' = row_id_mapper m
          \<and> (is_tree m \<and> parent_node = None
              \<or> children (ds_load ds (ds_calls m')) = []
                 \<and> ds_calls m' = ds_calls m @ [Load (active_params m')]))
   \<and> (add_rows depth ds parent_node m = Some (Inr True, m') \<longrightarrow>
          \<not> (is_tree m \<and> parent_node = None)
          \<and> (\<exists>pid pos off ps c c'.
                add_rows_target parent_node m = Inr (pid, pos, off, ps)
                \<and> children (ds_load ds (ds_calls m @ [Load (ps\<lparr> parent_id := Some pid \<rparr>)])) \<noteq> []
                \<and> child_count m pos = Some c \<and> child_count m' pos = Some c'
                \<and> c + length (children (ds_load ds (ds_calls m @ [Load (ps\<lparr> parent_id := Some pid \<rparr>)]))) \<le> c'))
   \<and> (\<not> (is_tree m \<and> parent_node = None)
        \<and> add_rows_target parent_node m = Inr (pid, pos, off, ps)
        \<and> children (ds_load ds (ds_calls m @ [Load (ps\<lparr> parent_id := Some pid \<rparr>)])) \<noteq> []
        \<and> id_column_idx m = Some idx
        \<and> (\<forall>row \<in> set (children (ds_load ds (ds_calls m @ [Load (ps\<lparr> parent_id := Some pid \<rparr>)]))).
              idx < length (data row))
        \<and> rows m = Some root \<and> get_node root pos = Some prow \<and> path prow = Some pp
        \<and> (is_tree m
            \<or> pos = [] \<and> pp = [] \<and> off = length (children root)
               \<and> (\<forall>row \<in> set (children (ds_load ds (ds_calls m @ [Load (ps\<lparr> parent_id := Some pid \<rparr>)]))).
                     \<forall>p. is_children_loaded ds False (set_path p row))) \<longrightarrow>
          (\<exists>m2. add_rows depth ds parent_node m = Some (Inr True, m2)))"
proof -
  have A: "is_tree m \<and> parent_node = None \<longrightarrow> add_rows depth ds parent_node m = Some (Inr False, m)"
    by (simp add: add_rows_early)
  have B: "\<not> (is_tree m \<and> parent_node = None)
        \<and> add_rows_target parent_node m = Inr (pid, pos, off, ps)
        \<and> children (ds_load ds (ds_calls m @ [Load (ps\<lparr> parent_id := Some pid \<rparr>)])) = [] \<longrightarrow>
          (\<exists>m1. add_rows depth ds parent_node m = Some (Inr False, m1)
             \<and> rows m1 = rows m \<and> row_id_mapper m1 = row_id_mapper m)"
    using add_rows_zero_rows [of m parent_node pid pos off ps ds depth] by auto
  have C: "add_rows depth ds parent_node m = Some (Inr False, m') \<longrightarrow>
          rows m' = rows m \<and> row_id_mapper m' = row_id_mapper m
          \<and> (is_tree m \<and> parent_node = None
              \<or> children (ds_load ds (ds_calls m')) = []
                 \<and> ds_calls m' = ds_calls m @ [Load (active_params m')])"
    using add_rows_False [of depth ds parent_node m m'] by auto
  have D: "add_rows depth ds parent_node m = Some (Inr True, m') \<longrightarrow>
          \<not> (is_tree m \<and> parent_node = None)
          \<and> (\<exists>pid pos off ps c c'.
                add_rows_target parent_node m = Inr (pid, pos, off, ps)
                \<and> children (ds_load ds (ds_calls m @ [Load (ps\<lparr> parent_id := Some pid \<rparr>)])) \<noteq> []
                \<and> child_count m pos = Some c \<and> child_count m' pos = Some c'
                \<and> c + length (children (ds_load ds (ds_calls m @ [Load (ps\<lparr> parent_id := Some pid \<rparr>)]))) \<le> c')"
    using add_rows_True [of depth ds parent_node m m'] by blast
  have E: "\<not> (is_tree m \<and> parent_node = None)
        \<and> add_rows_target parent_node m = Inr (pid, pos, off, ps)
        \<and> children (ds_load ds (ds_calls m @ [Load (ps\<lparr> parent_id := Some pid \<rparr>)])) \<noteq> []
        \<and> id_column_idx m = Some idx
        \<and> (\<forall>row \<in> set (children (ds_load ds (ds_calls m @ [Load (ps\<lparr> parent_id := Some pid \<rparr>)]))).
              idx < length (data row))
        \<and> rows m = Some root \<and> get_node root pos = Some prow \<and> path prow = Some pp
        \<and> (is_tree m
            \<or> pos = [] \<and> pp = [] \<and> off = length (children root)
               \<and> (\<forall>row \<in> set (children (ds_load ds (ds_calls m @ [Load (ps\<lparr> parent_id := Some pid \<rparr>)]))).
                     \<forall>p. is_children_loaded ds False (set_path p row))) \<longrightarrow>
          (\<exists>m2. add_rows depth ds parent_node m = Some (Inr True, m2))"
  proof
    assume h: "\<not> (is_tree m \<and> parent_node = None)
        \<and> add_rows_target parent_node m = Inr (pid, pos, off, ps)
        \<and> children (ds_load ds (ds_calls m @ [Load (ps\<lparr> parent_id := Some pid \<rparr>)])) \<noteq> []
        \<and> id_column_idx m = Some idx
        \<and> (\<forall>row \<in> set (children (ds_load ds (ds_calls m @ [Load (ps\<lparr> parent_id := Some pid \<rparr>)]))).
              idx < length (data row))
        \<and> rows m = Some root \<and> get_node root pos = Some prow \<and> path prow = Some pp
        \<and> (is_tree m
            \<or> pos = [] \<and> pp = [] \<and> off = length (children root)
               \<and> (\<forall>row \<in> set (children (ds_load ds (ds_calls m @ [Load (ps\<lparr> parent_id := Some pid \<rparr>)]))).
                     \<forall>p. is_children_loaded ds False (set_path p row)))"
    show "\<exists>m2. add_rows depth ds parent_node m = Some (Inr True, m2)"
      by (rule add_rows_completes [of m parent_node pid pos off ps ds idx root prow pp])
         (use h in blast)+
  qed
  from A B C D E show ?thesis by blast
qed

text \<open>
  C2. Paging the root of a model that has no root rows neither returns \<open>False\<close> nor
  appends a row. After the refresh of an empty table, in a display that is not
  hierarchical, \<open>add_rows\<close> without a parent node raises \<open>IndexError\<close> at
  \<open>self.rows[-1]\<close>, whatever the nesting bound: it does not ask the data source, whose
  load would have returned no rows, and it leaves the model as it was.
\<close>

theorem add_rows_empty_root:
  "refresh empty_source (init_model selected_columns) = (Inr (), empty_page)
   \<and> rows empty_page = Some (Node [] (Some []) [])
   \<and> \<not> is_tree empty_page
   \<and> add_rows depth empty_source None empty_page = Some (Inl IndexError, empty_page)
   \<and> children (ds_load empty_source (ds_calls empty_page @ [Load ps])) = []"
proof -
  obtain nested where b: "add_rows depth empty_source = add_rows_body nested empty_source"
    using add_rows_is_body by blast
  have t: "add_rows_target None empty_page = Inl IndexError"
    by (simp add: add_rows_target_def empty_page_rows)
  have n: "\<not> (is_tree empty_page \<and> (None :: nat list option) = None)"
    by (simp add: empty_page_not_tree)
  from add_rows_body_raises [OF n t, of nested empty_source] b
  have r: "add_rows depth empty_source None empty_page = Some (Inl IndexError, empty_page)"
    by simp
  have l: "children (ds_load empty_source (ds_calls empty_page @ [Load ps])) = []"
    by (simp add: empty_source_def source_of_def)
  from empty_page_refresh empty_page_rows empty_page_not_tree r l show ?thesis by blast
qed

section \<open>Properties of the date filter\<close>

lemma map_of_fold_delete:
  "map_of (fold AList.delete keys al) k = (if k \<in> set keys then None else map_of al k)"
  by (induction keys arbitrary: al) (simp_all add: delete_conv')

lemma refresh_view_params_date:
  "where_clauses (refresh_view_params (Some [(column, c)]) (Some cols) ps)
     = Some (AList.update column c
               (fold AList.delete cols (case where_clauses ps of None \<Rightarrow> [] | Some w \<Rightarrow> w)))"
  by (cases "fold AList.delete cols (case where_clauses ps of None \<Rightarrow> [] | Some w \<Rightarrow> w)")
     (simp_all add: refresh_view_params_def Let_def AList.update.simps)

text \<open>
  A date change while row \<open>a\<close> of the chooser is active: an absent start date gives the
  start 0 and an absent end date gives the end 2147485547; the \<open>where\<close> dictionary holds
  the range clause with the two timestamps under the chosen column, holds nothing under
  any other date column, and is as before under every other key.
\<close>

lemma on_date_change_selected:
  assumes act: "0 \<le> active_date_column w" "nat (active_date_column w) < length (model_date_columns w)"
    and s: "(if date_start w \<noteq> [] then get_timestamp_from_str (date_start w @ '' 00:00'')
             else Inr MIN_TIMESTAMP) = Inr start_timestamp"
    and e: "(if date_end w \<noteq> [] then get_timestamp_from_str (date_end w @ '' 23:59'')
             else Inr MAX_TIMESTAMP) = Inr end_timestamp"
    and col: "column = model_date_columns w ! nat (active_date_column w)"
  shows "\<exists>m' wd. on_date_change get_timestamp_from_str w m = Inr m'
           \<and> where_clauses (active_params m') = Some wd
           \<and> map_of wd (ColumnName column)
               = Some \<lparr> operator = ''range'', clause_param = Range start_timestamp end_timestamp \<rparr>
           \<and> (\<forall>k \<in> set (model_date_columns w). k \<noteq> column \<longrightarrow> map_of wd (ColumnName k) = None)
           \<and> (\<forall>k. k \<notin> ColumnName ` set (model_date_columns w) \<longrightarrow>
                 map_of wd k = map_of (case where_clauses (active_params m) of None \<Rightarrow> [] | Some x \<Rightarrow> x) k)
           \<and> (date_start w = [] \<longrightarrow> start_timestamp = 0)
           \<and> (date_end w = [] \<longrightarrow> end_timestamp = 2147485547)"
proof -
  let ?c = "\<lparr> operator = ''range'', clause_param = Range start_timestamp end_timestamp \<rparr>"
  let ?old = "case where_clauses (active_params m) of None \<Rightarrow> [] | Some x \<Rightarrow> x"
  let ?cols = "map ColumnName (model_date_columns w)"
  let ?wd = "AList.update (ColumnName column) ?c (fold AList.delete ?cols ?old)"
  let ?m' = "m\<lparr> active_params :=
               refresh_view_params (Some [(ColumnName column, ?c)]) (Some ?cols) (active_params m) \<rparr>"
  have run: "on_date_change get_timestamp_from_str w m = Inr ?m'"
    using act s e col by (simp add: on_date_change_def Let_def)
  have wd: "where_clauses (active_params ?m') = Some ?wd"
    by (simp add: refresh_view_params_date)
  have in_cols: "column \<in> set (model_date_columns w)"
    using act col by simp
  have 1: "map_of ?wd (ColumnName column) = Some ?c" by (simp add: update_conv')
  have 2: "\<forall>k \<in> set (model_date_columns w). k \<noteq> column \<longrightarrow> map_of ?wd (ColumnName k) = None"
    by (simp add: update_conv' map_of_fold_delete)
  have 3: "\<forall>k. k \<notin> ColumnName ` set (model_date_columns w) \<longrightarrow> map_of ?wd k = map_of ?old k"
    using in_cols by (auto simp: update_conv' map_of_fold_delete)
  have 4: "date_start w = [] \<longrightarrow> start_timestamp = 0"
    using s by (auto simp: MIN_TIMESTAMP_def)
  have 5: "date_end w = [] \<longrightarrow> end_timestamp = 2147485547"
    using e by (auto simp: MAX_TIMESTAMP_def)
  from run wd 1 2 3 4 5 show ?thesis by blast
qed

text \<open>With no active row and no date column at all the loop variable was never assigned.\<close>

lemma on_date_change_no_columns:
  "on_date_change (\<lambda>_. Inr 1403128800) (rebound_widgets\<lparr> model_date_columns := [] \<rparr>) m
     = Inl UnboundLocalError"
  by (simp add: on_date_change_def rebound_widgets_def)

text \<open>
  Each iteration over the chooser's list makes new row objects, and the one that is a key
  of the \<open>where\<close> dictionary is still alive at the next date change. So two date changes
  with no active row leave two range clauses.
\<close>

lemma on_date_change_twice:
  "on_date_change (\<lambda>_. Inr 1403128800) rebound_widgets (init_model selected_columns)
     = Inr ((init_model selected_columns)\<lparr> active_params := init_params\<lparr> where_clauses :=
              Some [(RowObject 0,
                     \<lparr> operator = ''range'', clause_param = Range 1403128800 2147485547 \<rparr>)] \<rparr> \<rparr>)"
  "on_date_change (\<lambda>_. Inr 1403128800) (rebound_widgets\<lparr> last_row_object := 1 \<rparr>)
     ((init_model selected_columns)\<lparr> active_params := init_params\<lparr> where_clauses :=
              Some [(RowObject 0,
                     \<lparr> operator = ''range'', clause_param = Range 1403128800 2147485547 \<rparr>)] \<rparr> \<rparr>)
     = Inr ((init_model selected_columns)\<lparr> active_params := init_params\<lparr> where_clauses :=
              Some [(RowObject 0,
                     \<lparr> operator = ''range'', clause_param = Range 1403128800 2147485547 \<rparr>),
                    (RowObject 1,
                     \<lparr> operator = ''range'', clause_param = Range 1403128800 2147485547 \<rparr>)] \<rparr> \<rparr>)"
  by (simp_all add: on_date_change_def rebound_widgets_def MAX_TIMESTAMP_def Let_def
      refresh_view_params_def init_model_def init_params_def AList.update.simps
      AList.delete_eq)

text \<open>
  C5. A date change while no row of the date column chooser is active installs no clause
  on a date column: the range clause goes under the row object that the loop of line
  836 left in \<open>column\<close>, the clauses of the date columns are removed, and so the
  \<open>where\<close> dictionary that goes to the data source has a key that is no column name and
  no range clause under \<open>created\<close>, the only date column.
\<close>

theorem on_date_change_no_selection:
  "active_date_column rebound_widgets = - 1
   \<and> model_date_columns rebound_widgets = [''created'']
   \<and> on_date_change (\<lambda>_. Inr 1403128800) rebound_widgets m
       = Inr (m\<lparr> active_params := (active_params m)\<lparr> where_clauses :=
                Some (AList.update (RowObject (last_row_object rebound_widgets))
                        \<lparr> operator = ''range'', clause_param = Range 1403128800 2147485547 \<rparr>
                        (AList.delete (ColumnName ''created'')
                           (case where_clauses (active_params m) of None \<Rightarrow> [] | Some x \<Rightarrow> x))) \<rparr> \<rparr>)
   \<and> map_of (AList.update (RowObject (last_row_object rebound_widgets))
                \<lparr> operator = ''range'', clause_param = Range 1403128800 2147485547 \<rparr>
                (AList.delete (ColumnName ''created'')
                   (case where_clauses (active_params m) of None \<Rightarrow> [] | Some x \<Rightarrow> x)))
         (ColumnName ''created'') = None"
proof -
  let ?c = "\<lparr> operator = ''range'', clause_param = Range 1403128800 2147485547 \<rparr>"
  let ?old = "case where_clauses (active_params m) of None \<Rightarrow> [] | Some x \<Rightarrow> x"
  let ?wd = "AList.update (RowObject 0) ?c (AList.delete (ColumnName ''created'') ?old)"
  have w: "refresh_view_params (Some [(RowObject 0, ?c)]) (Some [ColumnName ''created''])
             (active_params m) = (active_params m)\<lparr> where_clauses := Some ?wd \<rparr>"
    by (cases "AList.delete (ColumnName ''created'') ?old")
       (simp_all add: refresh_view_params_def Let_def AList.update.simps)
  have run: "on_date_change (\<lambda>_. Inr 1403128800) rebound_widgets m
       = Inr (m\<lparr> active_params := (active_params m)\<lparr> where_clauses := Some ?wd \<rparr> \<rparr>)"
    by (simp add: on_date_change_def rebound_widgets_def MAX_TIMESTAMP_def Let_def w)
  have none: "map_of ?wd (ColumnName ''created'') = None"
    by (simp add: update_conv' delete_conv')
  have l: "last_row_object rebound_widgets = 0" by (simp add: rebound_widgets_def)
  have a: "active_date_column rebound_widgets = - 1"
    "model_date_columns rebound_widgets = [''created'']"
    by (simp_all add: rebound_widgets_def)
  from a run none show ?thesis by (simp add: l)
qed

section \<open>Properties of \<open>set_value\<close>\<close>

lemma string_page_refresh:
  "snd (refresh string_source (init_model selected_columns)) = string_page"
  by (simp add: string_page_def refresh_def string_source_def source_of_def init_model_def
      init_params_def string_rows_def set_path_def dict_key_def Let_def)

lemma get_row_by_path_loaded:
  assumes "rows m = Some root" and "itr \<noteq> []" and "get_node root itr = Some row"
    and "is_children_loaded ds False row"
  shows "get_row_by_path nested ds itr m = Some (Inr (), m)"
  using assms by (simp add: get_row_by_path_def ensure_children_is_loaded_def)

text \<open>
  The write-through update of a row that has nothing to load and whose id converts to an
  integer \<open>k\<close>: the value is stored in the row's data at its place, one update keyed by
  \<open>k\<close> and carrying the value goes to the data source, and the row-changed notification
  is emitted when asked for.
\<close>

lemma set_value_written:
  assumes root: "rows m = Some root" and itr: "itr \<noteq> []" and row: "get_node root itr = Some row"
    and l1: "is_children_loaded ds False row"
    and l2: "is_children_loaded ds False (set_data ((data row)[col := v]) row)"
    and col: "col < length (data row)" "col < length (columns m)"
    and idx: "id_column_idx m = Some idx" "idx < length (data row)"
    and k: "py_int ((data row)[col := v] ! idx) = Inr k"
  shows "set_value F nested ds itr col v emit_event m =
           Some (Inr (),
                 m\<lparr> rows := Some (update_node (set_data ((data row)[col := v])) itr root),
                     ds_calls := ds_calls m @ [Update (name (columns m ! col)) v [k]],
                     signals := (if emit_event then signals m @ [RowChanged itr] else signals m) \<rparr>)"
proof -
  let ?row' = "set_data ((data row)[col := v]) row"
  let ?m2 = "m\<lparr> rows := Some (update_node (set_data ((data row)[col := v])) itr root) \<rparr>"
  have g1: "get_row_by_path nested ds itr m = Some (Inr (), m)"
    by (rule get_row_by_path_loaded [OF root itr row l1])
  have row': "get_node (update_node (set_data ((data row)[col := v])) itr root) itr = Some ?row'"
    by (rule get_node_update_at [OF row])
  have g2: "get_row_by_path nested ds itr ?m2 = Some (Inr (), ?m2)"
    by (rule get_row_by_path_loaded [of _ "update_node (set_data ((data row)[col := v])) itr root" _ ?row'])
       (simp_all add: itr row' l2)
  have v2: "on_get_value F nested ds itr (Some idx) True ?m2
              = Some (Inr (Raw ((data row)[col := v] ! idx)), ?m2)"
    using idx by (simp add: on_get_value_def g2 bind_outcome_def row' set_data_def)
  show ?thesis
    using root row col idx k
    by (cases emit_event) (simp_all add: set_value_def g1 bind_outcome_def v2 Let_def)
qed

text \<open>
  Reading the \<open>__selected\<close> column back: a plain boolean, equal to the stored value when
  that is a boolean.
\<close>

lemma get_formatted_value_selected:
  assumes "c < length (columns m)" and "name (columns m ! c) = ''__selected''"
    and "transform (columns m ! c) = Some ''boolean''" and "has_transformer F ''boolean''"
  shows "get_formatted_value F m (VBool b) c visible = Inr (Flag b)"
  using assms by (simp add: get_formatted_value_def py_bool_def Let_def)

lemma set_value_integer_id:
  "set_value plain_formatting (add_rows 0 paged_source) paged_source [1] 0 (VBool True) False
     first_page
     = Some (Inr (),
             first_page\<lparr> rows := Some (Node [] (Some [])
                                  [Node [VBool False, VInt 7] (Some [0]) [],
                                   Node [VBool True, VInt 9] (Some [1]) []]),
                           ds_calls := [Load init_params, Update ''__selected'' (VBool True) [9]] \<rparr>)"
proof -
  let ?root = "Node [] (Some []) [Node [VBool False, VInt 7] (Some [0]) [],
                                 Node [VBool False, VInt 9] (Some [1]) []]"
  let ?row = "Node [VBool False, VInt 9] (Some [1]) []"
  have "set_value plain_formatting (add_rows 0 paged_source) paged_source [1] 0 (VBool True) False
          first_page
        = Some (Inr (),
                first_page\<lparr> rows := Some (update_node (set_data ((data ?row)[0 := VBool True])) [1] ?root),
                    ds_calls := ds_calls first_page
                       @ [Update (name (columns first_page ! 0)) (VBool True) [9]],
                    signals := (if False then signals first_page @ [RowChanged [1]]
                                else signals first_page) \<rparr>)"
    by (rule set_value_written [where idx = 1])
       (simp_all add: first_page_def paged_source_def source_of_def selected_columns_def
          py_int_def)
  then show ?thesis
    by (simp add: first_page_def selected_columns_def set_data_def)
qed

text \<open>
  C3. Toggling \<open>__selected\<close> on a row whose id is the string \<open>a1\<close>: the new value is
  stored in the row's data, and then \<open>int(id_)\<close> raises \<open>ValueError\<close>. No update reaches
  the data source and no notification is emitted.
\<close>

lemma py_int_no_break_space:
  "py_int (VStr [CHR 0xA0, CHR ''7'']) = Inr 7" "py_int (VStr [CHR ''7'', CHR 0x85]) = Inr 7"
  "py_int (VStr ''1_0'') = Inl ValueError"
  by (simp_all add: py_int_def py_int_of_string_def is_space_def digit_value_def Let_def)

lemma py_int_examples:
  "py_int (VStr ''a1'') = Inl ValueError" "py_int (VStr '' -42 '') = Inr (- 42)"
  "py_int (VInt 7) = Inr 7" "py_int VNone = Inl TypeError"
  by (simp_all add: py_int_def py_int_of_string_def is_space_def digit_value_def Let_def)

theorem set_value_string_id:
  "set_value plain_formatting (add_rows 0 string_source) string_source [0] 0 (VBool True) True
     string_page
     = Some (Inl ValueError,
             string_page\<lparr> rows := Some (Node [] (Some [])
                                  [Node [VBool True, VStr ''a1'', VStr ''first''] (Some [0]) []]) \<rparr>)
   \<and> ds_calls string_page = [Load init_params]"
  by (simp add: set_value_def on_get_value_def get_row_by_path_def ensure_children_is_loaded_def
      bind_outcome_def string_page_def string_source_def source_of_def set_data_def
      selected_columns_def py_int_examples Let_def)

section \<open>Properties of the expansion state\<close>

lemma collect_expandable_result:
  "collect_expandable idx rs ids = (Inr (), ids') \<Longrightarrow>
   ids' = ids \<union> (case idx of
                    Some i \<Rightarrow> set (map (\<lambda>row. dict_key (data row ! i))
                                  (filter (\<lambda>row. children row \<noteq> []) rs))
                  | None \<Rightarrow> {})"
proof (induction rs arbitrary: ids)
  case Nil
  then show ?case by (simp split: option.splits)
next
  case (Cons row rest)
  show ?case
  proof (cases "children row = []")
    case True
    with Cons.prems have "collect_expandable idx rest ids = (Inr (), ids')" by simp
    from Cons.IH [OF this] True show ?thesis by (auto split: option.splits)
  next
    case False
    with Cons.prems obtain i where i: "idx = Some i" "i < length (data row)"
      and run: "collect_expandable idx rest (insert (dict_key (data row ! i)) ids) = (Inr (), ids')"
      by (auto split: option.splits if_splits)
    from Cons.IH [OF run] i False show ?thesis by auto
  qed
qed

lemma collect_expandable_completes:
  "\<forall>row \<in> set rs. children row \<noteq> [] \<longrightarrow> i < length (data row)
   \<Longrightarrow> fst (collect_expandable (Some i) rs ids) = Inr ()"
  by (induction rs arbitrary: ids) simp_all

lemma not_loaded_below:
  "get_node root pos = Some row \<Longrightarrow> \<not> is_children_loaded ds False row
   \<Longrightarrow> \<not> is_children_loaded_recursive ds root"
proof (induction pos arbitrary: root)
  case Nil
  then show ?case by (cases root) auto
next
  case (Cons i "is")
  then have i: "i < length (children root)" and sub: "get_node (children root ! i) is = Some row"
    by (simp_all split: if_splits)
  from Cons.IH [OF sub Cons.prems(2)] have "\<not> is_children_loaded_recursive ds (children root ! i)" .
  with i show ?case by (cases root) auto
qed

lemma get_expandable_ids_cached:
  "expandable_ids v \<noteq> {} \<Longrightarrow> get_expandable_ids ds m v = (Inr (Some (expandable_ids v)), v)"
  by (simp add: get_expandable_ids_def)

lemma get_expandable_ids_indeterminate:
  "expandable_ids v = {} \<Longrightarrow> rows m \<noteq> None \<Longrightarrow> \<not> fully_loaded ds m
   \<Longrightarrow> get_expandable_ids ds m v = (Inr None, v)"
  by (auto simp: get_expandable_ids_def fully_loaded_def)

lemma get_expandable_ids_determined:
  assumes "expandable_ids v = {}" and "get_expandable_ids ds m v = (Inr ids, v')"
  shows "(fully_loaded ds m \<longrightarrow> ids = Some (expandable_rows m) \<and> v' = v\<lparr> expandable_ids := expandable_rows m \<rparr>)
         \<and> (\<not> fully_loaded ds m \<longrightarrow> ids = None \<and> v' = v)"
proof (cases "rows m")
  case None
  with assms show ?thesis by (simp add: get_expandable_ids_def)
next
  case (Some root)
  show ?thesis
  proof (cases "is_children_loaded_recursive ds root")
    case False
    with Some assms show ?thesis by (simp add: get_expandable_ids_def fully_loaded_def)
  next
    case True
    obtain r s where c: "collect_expandable (id_column_idx m) (iter_children_aux root) {} = (r, s)"
      by (cases "collect_expandable (id_column_idx m) (iter_children_aux root) {}") auto
    with assms Some True have r: "r = Inr ()" and ids: "ids = Some s" and v': "v' = v\<lparr> expandable_ids := s \<rparr>"
      by (auto simp: get_expandable_ids_def Let_def split: sum.splits)
    from collect_expandable_result [of "id_column_idx m" "iter_children_aux root" "{}" s] c r
    have "s = expandable_rows m"
      by (auto simp: expandable_rows_def Some split: option.splits)
    with ids v' True Some show ?thesis by (simp add: fully_loaded_def)
  qed
qed

lemma check_all_expanded_fields:
  assumes "\<not> block_all_expanded v" and "get_expandable_ids ds m v = (Inr ids, v1)"
    and "check_all_expanded ds m v = (r, v')"
  shows "r = Inr ()"
    and "all_expanded v' = (case ids of None \<Rightarrow> False | Some s \<Rightarrow> expanded_ids v1 = s)"
    and "expandable_ids v' = expandable_ids v1"
    and "expanded_ids v' = expanded_ids v1"
    and "block_all_expanded v' = block_all_expanded v1"
  using assms by (auto simp: check_all_expanded_def Let_def split: if_splits option.splits)

text \<open>What a recomputation that is not blocked and completes leaves.\<close>

lemma check_all_expanded_result:
  assumes "\<not> block_all_expanded v" and "check_all_expanded ds m v = (Inr (), v')"
  shows "all_expanded v' =
           (if expandable_ids v = {} then fully_loaded ds m \<and> expanded_ids v = expandable_rows m
            else expanded_ids v = expandable_ids v)
         \<and> expandable_ids v' =
             (if expandable_ids v = {} \<and> fully_loaded ds m then expandable_rows m
              else expandable_ids v)
         \<and> expanded_ids v' = expanded_ids v
         \<and> block_all_expanded v' = block_all_expanded v"
proof (cases "expandable_ids v = {}")
  case False
  from check_all_expanded_fields [OF assms(1) get_expandable_ids_cached [OF False] assms(2)] False
  show ?thesis by simp
next
  case True
  from assms obtain ids v1 where g: "get_expandable_ids ds m v = (Inr ids, v1)"
    by (auto simp: check_all_expanded_def Let_def split: prod.splits sum.splits)
  note f = check_all_expanded_fields [OF assms(1) g assms(2)]
  from get_expandable_ids_determined [OF True g]
  have d: "(fully_loaded ds m \<longrightarrow> ids = Some (expandable_rows m) \<and> v1 = v\<lparr> expandable_ids := expandable_rows m \<rparr>)
         \<and> (\<not> fully_loaded ds m \<longrightarrow> ids = None \<and> v1 = v)" .
  show ?thesis
  proof (cases "fully_loaded ds m")
    case True
    with d f \<open>expandable_ids v = {}\<close> show ?thesis by simp
  next
    case False
    with d f \<open>expandable_ids v = {}\<close> show ?thesis by simp
  qed
qed

lemma check_all_expanded_blocked:
  "block_all_expanded v \<Longrightarrow> check_all_expanded ds m v = (Inr (), v)"
  by (simp add: check_all_expanded_def)

text \<open>
  A recomputation completes when a non-empty set is cached, when the resident hierarchy is
  not loaded, and when every resident row that has children has the id column.
\<close>

lemma check_all_expanded_completes:
  assumes "rows m = Some root"
    and "expandable_ids v \<noteq> {} \<or> \<not> fully_loaded ds m
         \<or> (\<exists>i. id_column_idx m = Some i
                 \<and> (\<forall>row \<in> set (iter_children_aux root). children row \<noteq> [] \<longrightarrow> i < length (data row)))"
  shows "fst (check_all_expanded ds m v) = Inr ()"
proof (cases "block_all_expanded v")
  case True
  then show ?thesis by (simp add: check_all_expanded_def)
next
  case nb: False
  show ?thesis
  proof (cases "expandable_ids v \<noteq> {}")
    case True
    with nb show ?thesis
      by (simp add: check_all_expanded_def get_expandable_ids_def Let_def)
  next
    case e: False
    show ?thesis
    proof (cases "fully_loaded ds m")
      case False
      with nb e assms(1) show ?thesis
        by (simp add: check_all_expanded_def get_expandable_ids_def Let_def fully_loaded_def)
    next
      case True
      with assms(2) e obtain i where i: "id_column_idx m = Some i"
        and r: "\<forall>row \<in> set (iter_children_aux root). children row \<noteq> [] \<longrightarrow> i < length (data row)"
        by auto
      from collect_expandable_completes [OF r, of "{}"]
      have "fst (collect_expandable (Some i) (iter_children_aux root) {}) = Inr ()" .
      with nb e assms(1) True i show ?thesis
        by (auto simp: check_all_expanded_def get_expandable_ids_def Let_def fully_loaded_def
                 split: prod.splits sum.splits)
    qed
  qed
qed







lemma folders_id_column:
  "id_column_idx folders_page = Some 1" "id_column_idx more_folders = Some 1"
  by (simp_all add: folders_page_def more_folders_def)









end
